theory Spec2Isabelle
  imports Complex_Main "HOL-Library.AList" "HOL-Library.Stream"
begin

section \<open>Data model of the bridge (src/bridge.js)\<close>

text \<open>
  An HTTP endpoint is its URL. A queued message is a JavaScript object; the queues and the
  retry timers hold references to it, so the objects live in an explicit store and a
  reference is the position of the object in that store.
\<close>

type_synonym endpoint = string
type_synonym ref = nat

text \<open>The object literal \<^verbatim>\<open>{ topic, message, time }\<close> built by \<^verbatim>\<open>messageReceived\<close>.\<close>

record msg_data =
  topic :: string
  message :: string
  time :: int

text \<open>The object \<^verbatim>\<open>{ data: {...}, attempts: 0 }\<close>.\<close>

record queueMsg =
  data :: msg_data
  attempts :: nat

text \<open>
  The fields of a bridge configuration that \<^verbatim>\<open>bridge.js\<close> reads. Numbers are
  mathematical integers; JavaScript's doubles agree with them below \<open>2 ^ 53\<close>.
\<close>

record config =
  mqttEndpoint :: string
  topics :: "string list"
  httpEndpoints :: "endpoint list"
  concurrency :: int
  maxAttempts :: int
  backoffMultiplier :: int
  timeout :: int
  maxQueueLength :: int
  maxBrokerConnectWait :: int
  brokerConnectBackoffMultiplier :: int

text \<open>
  A \<^verbatim>\<open>fastq\<close> queue (the library is a dependency, not part of the repository). Its
  interface as the bridge uses it: \<^verbatim>\<open>push\<close> calls the worker at once while fewer than
  \<open>concurrency\<close> workers run and appends the task to the waiting list otherwise;
  \<^verbatim>\<open>length()\<close> counts the waiting tasks; when a worker calls \<^verbatim>\<open>done\<close> the head of the
  waiting list, if any, is handed to the worker.
\<close>

record fastq =
  running :: "ref list"
  waiting :: "ref list"

datatype log_entry =
    Debug_Bridging string endpoint
  | Debug_Success string endpoint
  | Warn_Failed string endpoint
  | Debug_Requeuing int string endpoint
  | Error_MaxAttempts int string endpoint
  | Error_QueueFull string endpoint

text \<open>One call of \<^verbatim>\<open>axios.post\<close>: the URL, the body object, the content-type header
  and the timeout option. \<open>post_task\<close> is the identity of the message object whose
  \<^verbatim>\<open>data\<close> is passed.\<close>

record http_post =
  url :: endpoint
  body :: msg_data
  content_type :: string
  post_timeout :: int
  post_task :: ref

text \<open>
  The state of one bridge: the message objects, the object \<^verbatim>\<open>queues\<close> (keys in
  insertion order), the pending \<^verbatim>\<open>setTimeout\<close> callbacks of \<^verbatim>\<open>requeue\<close> (delay,
  endpoint, message), the HTTP requests issued so far, the counter \<^verbatim>\<open>messagesCount\<close>
  and the log output.
\<close>

record bridge_state =
  store :: "queueMsg list"
  queues :: "(endpoint \<times> fastq) list"
  timers :: "(int \<times> endpoint \<times> ref) list"
  posts :: "http_post list"
  messagesCount :: nat
  logs :: "log_entry list"

text \<open>How a pending \<^verbatim>\<open>axios.post\<close> promise settles: fulfilled, or rejected with an error
  that carries \<^verbatim>\<open>err.response.status\<close> or no response at all.\<close>

datatype axios_outcome = Fulfilled | Rejected "int option"

section \<open>requeue\<close>

definition requeue :: "config \<Rightarrow> endpoint \<Rightarrow> ref \<Rightarrow> bridge_state \<Rightarrow> int option \<times> bridge_state" where
  "requeue cfg httpEndpoint r st =
     (let queueMsg = store st ! r in
      if int (attempts queueMsg) < maxAttempts cfg - 1 then
        let tmo = backoffMultiplier cfg ^ attempts queueMsg * 1000 in
        (Some tmo,
         st\<lparr>logs := logs st @ [Debug_Requeuing tmo (topic (data queueMsg)) httpEndpoint],
            timers := timers st @ [(tmo, httpEndpoint, r)],
            store := (store st)[r := queueMsg\<lparr>attempts := attempts queueMsg + 1\<rparr>]\<rparr>)
      else
        (None,
         st\<lparr>logs := logs st @
            [Error_MaxAttempts (maxAttempts cfg) (topic (data queueMsg)) httpEndpoint]\<rparr>))"

text \<open>Successive calls of \<^verbatim>\<open>requeue\<close> on one message with no other event in between,
  as the loop of test/bridge.test.js makes them.\<close>

fun requeue_times :: "config \<Rightarrow> endpoint \<Rightarrow> ref \<Rightarrow> nat \<Rightarrow> bridge_state \<Rightarrow> bridge_state" where
  "requeue_times cfg ep r 0 st = st"
| "requeue_times cfg ep r (Suc k) st = snd (requeue cfg ep r (requeue_times cfg ep r k st))"

section \<open>The worker and the queues\<close>

text \<open>The synchronous part of \<^verbatim>\<open>bridgeWorker\<close>: the debug line and the call of
  \<^verbatim>\<open>axios.post(httpEndpoint, queueMsg.data, {...})\<close>.\<close>

definition bridgeWorker :: "config \<Rightarrow> endpoint \<Rightarrow> ref \<Rightarrow> bridge_state \<Rightarrow> bridge_state" where
  "bridgeWorker cfg httpEndpoint r st =
     (let queueMsg = store st ! r in
      st\<lparr>logs := logs st @ [Debug_Bridging (topic (data queueMsg)) httpEndpoint],
         posts := posts st @
           [\<lparr>url = httpEndpoint, body = data queueMsg, content_type = ''application/json'',
             post_timeout = timeout cfg, post_task = r\<rparr>]\<rparr>)"

text \<open>\<^verbatim>\<open>queue.push(queueMsg)\<close> on the queue of an endpoint.\<close>

definition fastq_push :: "config \<Rightarrow> endpoint \<Rightarrow> ref \<Rightarrow> bridge_state \<Rightarrow> bridge_state" where
  "fastq_push cfg ep r st =
     (case map_of (queues st) ep of
        None \<Rightarrow> st
      | Some q \<Rightarrow>
          if int (length (running q)) = concurrency cfg then
            st\<lparr>queues := AList.update ep (q\<lparr>waiting := waiting q @ [r]\<rparr>) (queues st)\<rparr>
          else
            bridgeWorker cfg ep r
              (st\<lparr>queues := AList.update ep (q\<lparr>running := running q @ [r]\<rparr>) (queues st)\<rparr>))"

text \<open>The \<^verbatim>\<open>done\<close> callback of a worker: the next waiting task is started in its place.\<close>

definition fastq_release :: "config \<Rightarrow> endpoint \<Rightarrow> ref \<Rightarrow> bridge_state \<Rightarrow> bridge_state" where
  "fastq_release cfg ep r st =
     (case map_of (queues st) ep of
        None \<Rightarrow> st
      | Some q \<Rightarrow>
          (case waiting q of
             [] \<Rightarrow> st\<lparr>queues := AList.update ep (q\<lparr>running := remove1 r (running q)\<rparr>) (queues st)\<rparr>
           | next # rest \<Rightarrow>
               bridgeWorker cfg ep next
                 (st\<lparr>queues := AList.update ep
                    (q\<lparr>running := remove1 r (running q) @ [next], waiting := rest\<rparr>) (queues st)\<rparr>)))"

text \<open>The promise chain of \<^verbatim>\<open>bridgeWorker\<close>: \<^verbatim>\<open>.then(success).catch(failure).then(done)\<close>.\<close>

definition bridgeWorker_settled ::
  "config \<Rightarrow> endpoint \<Rightarrow> ref \<Rightarrow> axios_outcome \<Rightarrow> bridge_state \<Rightarrow> bridge_state" where
  "bridgeWorker_settled cfg httpEndpoint r outcome st =
     (let tp = topic (data (store st ! r)) in
      fastq_release cfg httpEndpoint r
        (case outcome of
           Fulfilled \<Rightarrow> st\<lparr>logs := logs st @ [Debug_Success tp httpEndpoint]\<rparr>
         | Rejected response \<Rightarrow>
             (let st1 = st\<lparr>logs := logs st @ [Warn_Failed tp httpEndpoint]\<rparr> in
              case response of
                Some status \<Rightarrow>
                  if status = 429 \<or> status \<ge> 500
                  then snd (requeue cfg httpEndpoint r st1) else st1
              | None \<Rightarrow> snd (requeue cfg httpEndpoint r st1))))"

section \<open>messageReceived\<close>

text \<open>
  \<open>toString\<close> is \<^verbatim>\<open>message.toString()\<close> (the UTF-8 decoding of the payload buffer) and
  \<open>now\<close> the value \<^verbatim>\<open>Date.now()\<close> returns. One object is created and the same object is
  pushed to every queue that has room.
\<close>

text \<open>The callback that \<^verbatim>\<open>messageReceived\<close> passes to \<^verbatim>\<open>forEach\<close>; \<open>r\<close> is the new
  message object.\<close>

definition messageReceived_each :: "config \<Rightarrow> string \<Rightarrow> ref \<Rightarrow> endpoint \<Rightarrow> bridge_state \<Rightarrow> bridge_state" where
  "messageReceived_each cfg tp r endpoint s =
     (case map_of (queues s) endpoint of
        None \<Rightarrow> s
      | Some queue \<Rightarrow>
          if int (length (waiting queue)) < maxQueueLength cfg
          then fastq_push cfg endpoint r s
          else s\<lparr>logs := logs s @ [Error_QueueFull tp endpoint]\<rparr>)"

definition messageReceived ::
  "('p \<Rightarrow> string) \<Rightarrow> config \<Rightarrow> int \<Rightarrow> string \<Rightarrow> 'p \<Rightarrow> bridge_state \<Rightarrow> bridge_state" where
  "messageReceived toString cfg now tp msg st =
     (let queueMsg = \<lparr>data = \<lparr>topic = tp, message = toString msg, time = now\<rparr>, attempts = 0\<rparr>;
          r = length (store st);
          st1 = st\<lparr>store := store st @ [queueMsg]\<rparr>
      in fold (messageReceived_each cfg tp r) (map fst (queues st1)) st1)"

section \<open>The bridge as an event-driven machine\<close>

text \<open>
  After start-up the bridge only reacts to events: a \<^verbatim>\<open>message\<close> event of the MQTT client,
  the settling of an HTTP request in flight, and the firing of a pending retry timer.
\<close>

datatype 'p event =
    Message string 'p int
  | Settled endpoint ref axios_outcome
  | TimerFired nat

text \<open>The queues created by the loop over \<^verbatim>\<open>config.httpEndpoints\<close>.\<close>

definition bridge_init :: "config \<Rightarrow> bridge_state" where
  "bridge_init cfg =
     \<lparr>store = [],
      queues = fold (\<lambda>endpoint qs. AList.update endpoint \<lparr>running = [], waiting = []\<rparr> qs)
                 (httpEndpoints cfg) [],
      timers = [], posts = [], messagesCount = 0, logs = []\<rparr>"

definition on_message ::
  "('p \<Rightarrow> string) \<Rightarrow> config \<Rightarrow> int \<Rightarrow> string \<Rightarrow> 'p \<Rightarrow> bridge_state \<Rightarrow> bridge_state" where
  "on_message toString cfg now tp msg st =
     messageReceived toString cfg now tp msg (st\<lparr>messagesCount := messagesCount st + 1\<rparr>)"

definition getMessageCount :: "bridge_state \<Rightarrow> nat" where
  "getMessageCount st = messagesCount st"

definition getQueueLength :: "bridge_state \<Rightarrow> (endpoint \<times> nat) list" where
  "getQueueLength st = map (\<lambda>(endpoint, q). (endpoint, length (waiting q))) (queues st)"

fun step :: "('p \<Rightarrow> string) \<Rightarrow> config \<Rightarrow> 'p event \<Rightarrow> bridge_state \<Rightarrow> bridge_state" where
  "step toString cfg (Message tp msg now) st = on_message toString cfg now tp msg st"
| "step toString cfg (Settled ep r outcome) st =
     (case map_of (queues st) ep of
        None \<Rightarrow> st
      | Some q \<Rightarrow> if r \<in> set (running q) then bridgeWorker_settled cfg ep r outcome st else st)"
| "step toString cfg (TimerFired i) st =
     (if i < length (timers st)
      then (case timers st ! i of
              (tmo, ep, r) \<Rightarrow>
                fastq_push cfg ep r
                  (st\<lparr>timers := take i (timers st) @ drop (Suc i) (timers st)\<rparr>))
      else st)"

fun is_message :: "'p event \<Rightarrow> bool" where
  "is_message (Message tp msg now) = True"
| "is_message (Settled ep r outcome) = False"
| "is_message (TimerFired i) = False"

definition run :: "('p \<Rightarrow> string) \<Rightarrow> config \<Rightarrow> 'p event list \<Rightarrow> bridge_state \<Rightarrow> bridge_state" where
  "run toString cfg evs st = fold (step toString cfg) evs st"

section \<open>Outcome of an HTTP request\<close>

text \<open>
  What the server did, and how \<^verbatim>\<open>axios\<close> (a dependency) settles the promise for it with
  its default \<^verbatim>\<open>validateStatus\<close>: a status from 200 to 299 fulfils, any other status
  rejects with \<^verbatim>\<open>err.response\<close> set, and a request that got no response (network error,
  timeout, connection refused) rejects without \<^verbatim>\<open>err.response\<close>.
\<close>

datatype http_result = NoResponse | Response int

definition axios_post_result :: "http_result \<Rightarrow> axios_outcome" where
  "axios_post_result res =
     (case res of
        NoResponse \<Rightarrow> Rejected None
      | Response status \<Rightarrow>
          if 200 \<le> status \<and> status < 300 then Fulfilled else Rejected (Some status))"

section \<open>Connecting and subscribing\<close>

datatype error = Error string

text \<open>
  \<^verbatim>\<open>connectToBroker\<close>. The argument \<open>results\<close> is the sequence of outcomes of the
  successive calls of \<^verbatim>\<open>mqtt.connectAsync\<close> (\<open>True\<close>: the promise is fulfilled). The
  loop has no exit but success, so it is a partial function: \<open>None\<close> means that the
  returned promise never settles. On success the value carries the counter \<open>attempt\<close>
  and the delays passed to \<^verbatim>\<open>setTimeout\<close>, in order.
\<close>

partial_function (option) attemptConnection ::
  "config \<Rightarrow> bool stream \<Rightarrow> nat \<Rightarrow> int list \<Rightarrow> (nat \<times> int list) option" where
  "attemptConnection cfg results attempt delays =
     (if shd results then Some (attempt, delays)
      else
        (let tmo = brokerConnectBackoffMultiplier cfg ^ attempt * 1000;
             tmo = (if tmo > maxBrokerConnectWait cfg then maxBrokerConnectWait cfg else tmo)
         in attemptConnection cfg (stl results) (attempt + 1) (delays @ [tmo])))"

declare attemptConnection.simps [code]

definition connectToBroker :: "config \<Rightarrow> bool stream \<Rightarrow> (nat \<times> int list) option" where
  "connectToBroker cfg results = attemptConnection cfg results 0 []"

text \<open>
  \<^verbatim>\<open>subscribeToTopics\<close>. \<open>subscribe\<close> is \<^verbatim>\<open>mqttClient.subscribe\<close>: \<open>None\<close> when the
  promise is fulfilled, the error message when it is rejected. The first component of
  the result lists the calls made. \<^verbatim>\<open>Promise.all\<close> rejects with the reason of the
  subscription that fails first; the model takes the first one in list order.
\<close>

definition subscribeToTopics ::
  "config \<Rightarrow> (string \<Rightarrow> string option) \<Rightarrow> string list \<times> (error + unit)" where
  "subscribeToTopics cfg subscribe =
     (let subs = map subscribe (topics cfg) in
      (topics cfg,
       case List.map_filter (\<lambda>s. s) subs of
         [] \<Rightarrow> Inr ()
       | reason # _ \<Rightarrow>
           Inl (Error (''Failed to subscribe to all topics on '' @ mqttEndpoint cfg @
                       ''. Reason: '' @ reason))))"

text \<open>
  The exported constructor of \<^verbatim>\<open>bridge.js\<close>: connect, subscribe, create the queues.
  \<open>None\<close>: the promise never settles; \<open>Inl\<close>: it is rejected. The first component lists
  the calls of \<^verbatim>\<open>mqttClient.subscribe\<close>.
\<close>

definition bridge ::
  "config \<Rightarrow> bool stream \<Rightarrow> (string \<Rightarrow> string option) \<Rightarrow>
     (string list \<times> (error + bridge_state)) option" where
  "bridge cfg results subscribe =
     (case connectToBroker cfg results of
        None \<Rightarrow> None
      | Some conn \<Rightarrow>
          (case subscribeToTopics cfg subscribe of
             (calls, Inl e) \<Rightarrow> Some (calls, Inl e)
           | (calls, Inr u) \<Rightarrow> Some (calls, Inr (bridge_init cfg))))"

text \<open>The handlers \<^verbatim>\<open>index.js\<close> puts on the promise of each bridge.\<close>

datatype process_effect = BridgeStarted bridge_state | ProcessExit int string

definition start_bridge :: "error + bridge_state \<Rightarrow> process_effect" where
  "start_bridge res =
     (case res of
        Inr b \<Rightarrow> BridgeStarted b
      | Inl (Error msg) \<Rightarrow> ProcessExit 1 (''ERROR: '' @ msg))"

section \<open>Configuration (src/config.js)\<close>

text \<open>The values a parsed TOML file holds, as JavaScript values. A missing property
  reads as \<^verbatim>\<open>undefined\<close>, so an object is a function from property names.\<close>

datatype jsval = JUndefined | JNumber rat | JString string | JBoolean bool | JArray "jsval list"

type_synonym jsobject = "string \<Rightarrow> jsval"

definition DEFAULT_CONCURRENCY :: jsval where "DEFAULT_CONCURRENCY = JNumber 10"
definition DEFAULT_MAX_ATTEMPTS :: jsval where "DEFAULT_MAX_ATTEMPTS = JNumber 5"
definition DEFAULT_BACKOFF_MULTIPLIER :: jsval where "DEFAULT_BACKOFF_MULTIPLIER = JNumber 2"
definition DEFAULT_TIMEOUT :: jsval where "DEFAULT_TIMEOUT = JNumber 60000"
definition DEFAULT_MAX_QUEUE_LENGTH :: jsval where "DEFAULT_MAX_QUEUE_LENGTH = JNumber 1000"
definition DEFAULT_LOG_LEVEL :: jsval where "DEFAULT_LOG_LEVEL = JString ''warn''"
definition DEFAULT_MAX_BROKER_CONNECT_WAIT :: jsval where
  "DEFAULT_MAX_BROKER_CONNECT_WAIT = JNumber 300000"
definition DEFAULT_BROKER_CONNECT_BACKOFF_MULTIPLIER :: jsval where
  "DEFAULT_BROKER_CONNECT_BACKOFF_MULTIPLIER = JNumber 2"

text \<open>The double quote character of the error messages.\<close>

definition dquote :: string where "dquote = [CHR 0x22]"

definition integerConfigFields :: "string list" where
  "integerConfigFields =
     [''concurrency'', ''maxAttempts'', ''backOffMultiplier'', ''maxQueueLength'',
      ''timeout'', ''maxBrokerConnectWait'', ''brokerConnectBackoffMultiplier'']"

definition logLevels :: "string list" where
  "logLevels = [''debug'', ''warn'', ''error'', ''none'']"

definition isValidNumber :: "jsval \<Rightarrow> bool" where
  "isValidNumber num =
     (case num of
        JUndefined \<Rightarrow> True
      | JNumber x \<Rightarrow> of_int (floor x) = x \<and> x > 0
      | JString s \<Rightarrow> False | JBoolean b \<Rightarrow> False | JArray vs \<Rightarrow> False)"

text \<open>\<^verbatim>\<open>values.find(...) === undefined\<close>: \<^verbatim>\<open>find\<close> returns the first element that is not
  a string, so the test also succeeds when that element is itself \<^verbatim>\<open>undefined\<close>.\<close>

definition isValidArrayOfStrings :: "jsval \<Rightarrow> bool" where
  "isValidArrayOfStrings vals =
     (case vals of
        JArray vs \<Rightarrow>
          if vs = [] then False
          else (case List.find (\<lambda>v. case v of JString s \<Rightarrow> False | JUndefined \<Rightarrow> True
                         | JNumber x \<Rightarrow> True | JBoolean b \<Rightarrow> True | JArray ws \<Rightarrow> True) vs of
                  None \<Rightarrow> True
                | Some v \<Rightarrow> v = JUndefined)
      | JUndefined \<Rightarrow> False | JNumber x \<Rightarrow> False | JString s \<Rightarrow> False | JBoolean b \<Rightarrow> False)"

text \<open>\<open>parseURL\<close> is \<^verbatim>\<open>new url.URL(v).protocol\<close> of Node: \<open>None\<close> when the constructor
  throws.\<close>

definition isValidArrayOfURLs :: "(jsval \<Rightarrow> string option) \<Rightarrow> jsval \<Rightarrow> string list \<Rightarrow> bool" where
  "isValidArrayOfURLs parseURL urls validProtocols =
     (case urls of
        JArray us \<Rightarrow>
          if us = [] then False
          else list_all (\<lambda>u. case parseURL u of None \<Rightarrow> False
                  | Some protocol \<Rightarrow> protocol \<in> set validProtocols) us
      | JUndefined \<Rightarrow> False | JNumber x \<Rightarrow> False | JString s \<Rightarrow> False | JBoolean b \<Rightarrow> False)"

text \<open>JavaScript's \<^verbatim>\<open>a || b\<close>.\<close>

fun truthy :: "jsval \<Rightarrow> bool" where
  "truthy JUndefined = False"
| "truthy (JNumber x) = (x \<noteq> 0)"
| "truthy (JString s) = (s \<noteq> [])"
| "truthy (JBoolean b) = b"
| "truthy (JArray vs) = True"

definition js_or :: "jsval \<Rightarrow> jsval \<Rightarrow> jsval" where
  "js_or a b = (if truthy a then a else b)"

text \<open>The body of the loop over \<^verbatim>\<open>config.bridges\<close>: one bridge object is checked and
  completed with the defaults; a \<^verbatim>\<open>throw\<close> is \<open>Inl\<close>.\<close>

definition validate_bridge :: "(jsval \<Rightarrow> string option) \<Rightarrow> jsobject \<Rightarrow> error + jsobject" where
  "validate_bridge parseURL bridge0 =
     (case filter (\<lambda>field. \<not> isValidNumber (bridge0 field)) integerConfigFields of
        field # _ \<Rightarrow>
          Inl (Error (''Invalid value for '' @ field @
                      ''. Value must be an integer greater than 0.''))
      | [] \<Rightarrow>
          (let b1 = bridge0(''concurrency'' := js_or (bridge0 ''concurrency'') DEFAULT_CONCURRENCY);
               b2 = b1(''maxAttempts'' := js_or (b1 ''maxAttempts'') DEFAULT_MAX_ATTEMPTS);
               b3 = b2(''timeout'' := js_or (b2 ''timeout'') DEFAULT_TIMEOUT);
               b4 = b3(''backoffMultiplier'' :=
                         js_or (b3 ''backoffMultiplier'') DEFAULT_BACKOFF_MULTIPLIER);
               b5 = b4(''maxQueueLength'' := js_or (b4 ''maxQueueLength'') DEFAULT_MAX_QUEUE_LENGTH);
               b6 = b5(''maxBrokerConnectWait'' :=
                         js_or (b5 ''maxBrokerConnectWait'') DEFAULT_MAX_BROKER_CONNECT_WAIT);
               b7 = b6(''brokerConnectBackoffMultiplier'' :=
                         js_or (b6 ''brokerConnectBackoffMultiplier'')
                           DEFAULT_BROKER_CONNECT_BACKOFF_MULTIPLIER)
           in
             if \<not> isValidArrayOfURLs parseURL (b7 ''httpEndpoints'') [''http:'', ''https:'']
             then Inl (Error (''Invalid value for httpEndpoints. Value must be an array of valid URLs. Ex: [ '' @
                         dquote @ ''https://example.com/bridge'' @ dquote @ '' ]''))
             else if \<not> isValidArrayOfURLs parseURL (JArray [b7 ''mqttEndpoint''])
                        [''mqtt:'', ''mqtts:'', ''ws:'', ''wss:'']
             then Inl (Error (''Invalid value for mqttEndpoint. Value must be a valid URL. Ex: '' @
                         dquote @ ''mqtt://localhost:1883'' @ dquote))
             else if \<not> isValidArrayOfStrings (b7 ''topics'')
             then Inl (Error (''Invalid value for topics. Value must be an array of strings. Ex: [ '' @
                         dquote @ ''test/topic'' @ dquote @ '' ]''))
             else Inr b7))"

text \<open>The exported function of \<^verbatim>\<open>config.js\<close> on a parsed file: the log level, then the
  bridges in order; the first \<^verbatim>\<open>throw\<close> ends it.\<close>

record config_file =
  logLevel :: jsval
  bridges :: "(string \<times> jsobject) list option"

fun validate_bridges ::
  "(jsval \<Rightarrow> string option) \<Rightarrow> (string \<times> jsobject) list \<Rightarrow> error + (string \<times> jsobject) list" where
  "validate_bridges parseURL [] = Inr []"
| "validate_bridges parseURL ((name, b) # bs) =
     (case validate_bridge parseURL b of
        Inl e \<Rightarrow> Inl e
      | Inr b' \<Rightarrow>
          (case validate_bridges parseURL bs of
             Inl e \<Rightarrow> Inl e
           | Inr bs' \<Rightarrow> Inr ((name, b') # bs')))"

definition load_config :: "(jsval \<Rightarrow> string option) \<Rightarrow> config_file \<Rightarrow> error + config_file" where
  "load_config parseURL cf =
     (if logLevel cf \<noteq> JUndefined \<and> logLevel cf \<notin> set (map JString logLevels)
      then Inl (Error (''Invalid value for logLevel. Value be be '' @ dquote @ ''debug'' @ dquote @
                  '', '' @ dquote @ ''warn'' @ dquote @ '', or '' @ dquote @ ''error'' @ dquote @ ''.''))
      else
        (let level = (if logLevel cf = JUndefined then DEFAULT_LOG_LEVEL else logLevel cf) in
         case bridges cf of
           None \<Rightarrow> Inl (Error ''At least one bridge configuration is required.'')
         | Some bs \<Rightarrow>
             (case validate_bridges parseURL bs of
                Inl e \<Rightarrow> Inl e
              | Inr bs' \<Rightarrow> Inr \<lparr>logLevel = level, bridges = Some bs'\<rparr>)))"

text \<open>The start of \<^verbatim>\<open>index.js\<close>: a configuration error is printed and the process exits
  with status 1 before any bridge is created.\<close>

definition index_load :: "(jsval \<Rightarrow> string option) \<Rightarrow> config_file \<Rightarrow> (int \<times> string) + config_file" where
  "index_load parseURL cf =
     (case load_config parseURL cf of
        Inl (Error msg) \<Rightarrow> Inl (1, ''ERROR: '' @ msg)
      | Inr conf \<Rightarrow> Inr conf)"

section \<open>Concrete configurations\<close>

text \<open>The bridge configuration of test/bridge.test.js after the defaults are filled in.\<close>

definition test_config :: config where
  "test_config =
     \<lparr>mqttEndpoint = ''mqtts://broker.losant.com'',
      topics = [''topic1'', ''topic2''],
      httpEndpoints = [''http://example.com/1'', ''http://example.com/2'', ''http://example.com/3''],
      concurrency = 10, maxAttempts = 5, backoffMultiplier = 2, timeout = 60000,
      maxQueueLength = 1000, maxBrokerConnectWait = 300000,
      brokerConnectBackoffMultiplier = 2\<rparr>"

text \<open>A bridge with one endpoint, one worker and room for one waiting message.\<close>

definition small_config :: config where
  "small_config = test_config\<lparr>httpEndpoints := [''http://example.com/1''],
                              concurrency := 1, maxQueueLength := 1\<rparr>"

text \<open>The state of the test bridge after its first message, with the clock of the tests.\<close>

definition one_message_state :: bridge_state where
  "one_message_state =
     on_message (\<lambda>s. s) test_config 1592425256831 ''topic1'' ''Message Body 1''
       (bridge_init test_config)"

section \<open>The property of the queues and the runs used as examples\<close>

text \<open>Every queue reports at most \<^verbatim>\<open>maxQueueLength\<close> waiting messages.\<close>

fun is_timer :: "'p event \<Rightarrow> bool" where
  "is_timer (Message tp msg now) = False"
| "is_timer (Settled ep r outcome) = False"
| "is_timer (TimerFired i) = True"

definition queues_bounded :: "config \<Rightarrow> bridge_state \<Rightarrow> bool" where
  "queues_bounded cfg st =
     list_all (\<lambda>(endpoint, n). int n \<le> maxQueueLength cfg) (getQueueLength st)"

text \<open>One endpoint, one worker, room for one waiting message: the first message fails
  and waits for its retry timer, the second is in flight, the third fills the queue,
  then the timer fires.\<close>

definition overflow_events :: "string event list" where
  "overflow_events =
     [Message ''topic1'' ''m1'' 1, Message ''topic1'' ''m2'' 2,
      Settled ''http://example.com/1'' 0 (Rejected None),
      Message ''topic1'' ''m3'' 3, TimerFired 0]"


text \<open>Two endpoints that have received the same two messages: the second endpoint has
  delivered both, the first has one in flight and one waiting (its queue is full), or
  has delivered both as well.\<close>

definition two_endpoint_config :: config where
  "two_endpoint_config =
     small_config\<lparr>httpEndpoints := [''http://example.com/1'', ''http://example.com/2'']\<rparr>"

definition fill_events :: "string event list" where
  "fill_events =
     [Message ''topic1'' ''m1'' 1, Message ''topic1'' ''m2'' 2,
      Settled ''http://example.com/2'' 0 Fulfilled, Settled ''http://example.com/2'' 1 Fulfilled]"

definition drain_events :: "string event list" where
  "drain_events =
     [Settled ''http://example.com/1'' 0 Fulfilled, Settled ''http://example.com/1'' 1 Fulfilled]"

definition first_queue_full :: bridge_state where
  "first_queue_full = run (\<lambda>s. s) two_endpoint_config fill_events (bridge_init two_endpoint_config)"

definition first_queue_empty :: bridge_state where
  "first_queue_empty = run (\<lambda>s. s) two_endpoint_config drain_events first_queue_full"

section \<open>Properties of the requests issued\<close>

text \<open>The data objects built for the \<^verbatim>\<open>message\<close> events of a run, in order of arrival.\<close>

fun received :: "('p \<Rightarrow> string) \<Rightarrow> 'p event list \<Rightarrow> msg_data list" where
  "received toString [] = []"
| "received toString (Message tp msg now # evs) =
     \<lparr>topic = tp, message = toString msg, time = now\<rparr> # received toString evs"
| "received toString (Settled ep r outcome # evs) = received toString evs"
| "received toString (TimerFired i # evs) = received toString evs"

text \<open>Every reference held by a queue or a timer is below \<open>n\<close>.\<close>

definition refs_below :: "nat \<Rightarrow> bridge_state \<Rightarrow> bool" where
  "refs_below n st =
     (list_all (\<lambda>(ep, q). list_all (\<lambda>r. r < n) (running q) \<and> list_all (\<lambda>r. r < n) (waiting q))
        (queues st) \<and>
      list_all (\<lambda>(tmo, ep, r). r < n) (timers st))"

text \<open>Every request issued so far is a JSON request whose body is the data of the
  message object it was issued for.\<close>

definition posts_faithful :: "bridge_state \<Rightarrow> bool" where
  "posts_faithful st =
     list_all (\<lambda>p. content_type p = ''application/json'' \<and> post_task p < length (store st) \<and>
                    body p = data (store st ! post_task p)) (posts st)"

text \<open>One endpoint and one message whose first delivery fails and is retried.\<close>

definition retry_events :: "string event list" where
  "retry_events =
     [Message ''topic1'' ''Hello'' 1592425256831,
      Settled ''http://example.com/1'' 0 (Rejected (Some 503)), TimerFired 0]"

text \<open>A broker that accepts the connection at once and refuses the subscription to
  \<^verbatim>\<open>topic2\<close>.\<close>

definition refuse_topic2 :: "string \<Rightarrow> string option" where
  "refuse_topic2 t = (if t = ''topic2'' then Some ''Not authorized'' else None)"

text \<open>The bridge object of test/config.test.js, and what Node's URL parser answers for
  its two URLs.\<close>

definition test_bridge :: jsobject where
  "test_bridge =
     (\<lambda>field. JUndefined)
       (''httpEndpoints'' := JArray [JString ''http://example.com''],
        ''mqttEndpoint'' := JString ''mqtt://example.com'',
        ''topics'' := JArray [JString ''topic''])"

definition test_parseURL :: "jsval \<Rightarrow> string option" where
  "test_parseURL u =
     (if u = JString ''http://example.com'' then Some ''http:''
      else if u = JString ''mqtt://example.com'' then Some ''mqtt:''
      else None)"

text \<open>The log lines written by \<^verbatim>\<open>requeue\<close>.\<close>

fun requeue_log :: "log_entry \<Rightarrow> bool" where
  "requeue_log (Debug_Requeuing tmo tp ep) = True"
| "requeue_log (Error_MaxAttempts n tp ep) = True"
| "requeue_log (Debug_Bridging tp ep) = False"
| "requeue_log (Debug_Success tp ep) = False"
| "requeue_log (Warn_Failed tp ep) = False"
| "requeue_log (Error_QueueFull tp ep) = False"

text \<open>The test bridge during an outage of all three endpoints: one message arrives, the
  three requests fail, and each retry, started when its timer fires, fails again.\<close>

definition outage_start :: "string event list" where
  "outage_start =
     [Message ''topic1'' ''Message Body 1'' 1592425256831,
      Settled ''http://example.com/1'' 0 (Rejected None),
      Settled ''http://example.com/2'' 0 (Rejected None),
      Settled ''http://example.com/3'' 0 (Rejected None)]"

definition outage_retries :: "string event list" where
  "outage_retries =
     [TimerFired 0, Settled ''http://example.com/1'' 0 (Rejected None),
      TimerFired 0, Settled ''http://example.com/2'' 0 (Rejected None),
      TimerFired 0, Settled ''http://example.com/3'' 0 (Rejected None)]"

section \<open>What each operation leaves unchanged\<close>

lemma bridgeWorker_sel [simp]:
  "store (bridgeWorker cfg ep r st) = store st"
  "timers (bridgeWorker cfg ep r st) = timers st"
  "queues (bridgeWorker cfg ep r st) = queues st"
  "messagesCount (bridgeWorker cfg ep r st) = messagesCount st"
  by (simp_all add: bridgeWorker_def Let_def)

lemma fastq_push_sel [simp]:
  "store (fastq_push cfg ep r st) = store st"
  "timers (fastq_push cfg ep r st) = timers st"
  "messagesCount (fastq_push cfg ep r st) = messagesCount st"
  by (simp_all add: fastq_push_def split: option.splits)

lemma fastq_release_sel [simp]:
  "store (fastq_release cfg ep r st) = store st"
  "timers (fastq_release cfg ep r st) = timers st"
  "messagesCount (fastq_release cfg ep r st) = messagesCount st"
  by (simp_all add: fastq_release_def split: option.splits list.splits)

lemma requeue_sel [simp]:
  "queues (snd (requeue cfg ep r st)) = queues st"
  "posts (snd (requeue cfg ep r st)) = posts st"
  "messagesCount (snd (requeue cfg ep r st)) = messagesCount st"
  "length (store (snd (requeue cfg ep r st))) = length (store st)"
  by (simp_all add: requeue_def Let_def)

lemma bridgeWorker_settled_count [simp]:
  "messagesCount (bridgeWorker_settled cfg ep r outcome st) = messagesCount st"
  by (simp add: bridgeWorker_settled_def Let_def split: axios_outcome.splits option.splits)

lemma messageReceived_each_sel [simp]:
  "messagesCount (messageReceived_each cfg tp r ep st) = messagesCount st"
  "store (messageReceived_each cfg tp r ep st) = store st"
  "timers (messageReceived_each cfg tp r ep st) = timers st"
  by (simp_all add: messageReceived_each_def split: option.splits)

lemma messageReceived_fold_sel [simp]:
  "messagesCount (fold (messageReceived_each cfg tp r) eps st) = messagesCount st"
  "store (fold (messageReceived_each cfg tp r) eps st) = store st"
  "timers (fold (messageReceived_each cfg tp r) eps st) = timers st"
  by (induction eps arbitrary: st; simp)+

lemma messageReceived_sel [simp]:
  "messagesCount (messageReceived toString cfg now tp msg st) = messagesCount st"
  "timers (messageReceived toString cfg now tp msg st) = timers st"
  "store (messageReceived toString cfg now tp msg st) =
     store st @ [\<lparr>data = \<lparr>topic = tp, message = toString msg, time = now\<rparr>, attempts = 0\<rparr>]"
  by (simp_all add: messageReceived_def Let_def)

section \<open>The message counter\<close>

lemma step_count:
  "messagesCount (step toString cfg ev st) = messagesCount st + (if is_message ev then 1 else 0)"
  by (cases ev) (simp_all add: on_message_def split: option.splits prod.splits)

text \<open>
  C10. A new bridge counts 0. The handler of a \<^verbatim>\<open>message\<close> event increments the counter
  first and calls \<^verbatim>\<open>messageReceived\<close> on the state that already holds the new count, so
  the count grows by one whatever the queues decide. After any sequence of events
  \<^verbatim>\<open>getMessageCount\<close> has grown by the number of \<^verbatim>\<open>message\<close> events in it: settled
  requests and retry timers do not change it, nor does the list of endpoints.
\<close>

theorem message_count_total:
  "getMessageCount (bridge_init cfg) = 0 \<and>
   step toString cfg (Message tp msg now) st =
     messageReceived toString cfg now tp msg (st\<lparr>messagesCount := messagesCount st + 1\<rparr>) \<and>
   getMessageCount (step toString cfg (Message tp msg now) st) = getMessageCount st + 1 \<and>
   getMessageCount (run toString cfg evs st) = getMessageCount st + length (filter is_message evs)"
proof -
  have "messagesCount (fold (step toString cfg) evs st) =
      messagesCount st + length (filter is_message evs)"
    by (induction evs arbitrary: st) (simp_all add: step_count)
  then show ?thesis
    by (simp add: getMessageCount_def run_def bridge_init_def on_message_def)
qed

section \<open>Retry and backoff\<close>

lemma requeue_times_store_length:
  "length (store (requeue_times cfg ep r k st)) = length (store st)"
  by (induction k) (simp_all add: requeue_def Let_def)

lemma requeue_times_attempts:
  assumes "r < length (store st)" and "attempts (store st ! r) = 0"
    and "int k \<le> maxAttempts cfg - 1"
  shows "attempts (store (requeue_times cfg ep r k st) ! r) = k"
  using assms(3)
proof (induction k)
  case 0
  show ?case using assms(2) by simp
next
  case (Suc k)
  then have "attempts (store (requeue_times cfg ep r k st) ! r) = k" by simp
  moreover have "r < length (store (requeue_times cfg ep r k st))"
    using assms(1) by (simp add: requeue_times_store_length)
  moreover have "int k < maxAttempts cfg - 1" using Suc.prems by simp
  ultimately show ?case by (simp add: requeue_def Let_def)
qed

text \<open>
  \<^verbatim>\<open>requeue\<close> in isolation. On a message object with \<open>attempts = 0\<close> on which nothing but
  \<^verbatim>\<open>requeue\<close> is called, again and again as in test/bridge.test.js, with multiplier \<open>m\<close>
  and \<open>n = maxAttempts\<close>: the call number \<open>k\<close> (from 0), as long as \<open>k < n - 1\<close>, returns
  the delay \<open>m ^ k * 1000\<close>, adds the timer with that delay and has already incremented
  \<open>attempts\<close> to \<open>k + 1\<close> in the state in which the timer is still pending; for \<open>m \<ge> 1\<close>
  the next delay is not smaller. The call after \<open>n - 1\<close> requeues returns undefined, adds
  no timer and leaves \<open>attempts\<close> at \<open>n - 1\<close>. The calls count per message object, which
  the endpoints of a bridge share.
\<close>

theorem requeue_backoff_sequence:
  assumes "r < length (store st)" and "attempts (store st ! r) = 0"
  shows "(int k < maxAttempts cfg - 1 \<longrightarrow>
           (let s = requeue_times cfg ep r k st; res = requeue cfg ep r s in
            fst res = Some (backoffMultiplier cfg ^ k * 1000) \<and>
            timers (snd res) = timers s @ [(backoffMultiplier cfg ^ k * 1000, ep, r)] \<and>
            attempts (store (snd res) ! r) = k + 1 \<and>
            (1 \<le> backoffMultiplier cfg \<longrightarrow>
               backoffMultiplier cfg ^ k * 1000 \<le> backoffMultiplier cfg ^ (k + 1) * 1000))) \<and>
         (int k = maxAttempts cfg - 1 \<longrightarrow>
           (let s = requeue_times cfg ep r k st; res = requeue cfg ep r s in
            fst res = None \<and> timers (snd res) = timers s \<and> store (snd res) = store s \<and>
            attempts (store (snd res) ! r) = k))"
proof -
  let ?s = "requeue_times cfg ep r k st"
  have len: "r < length (store ?s)"
    using assms(1) by (simp add: requeue_times_store_length)
  have att: "int k \<le> maxAttempts cfg - 1 \<Longrightarrow> attempts (store ?s ! r) = k"
    using requeue_times_attempts [OF assms, of k cfg ep] by simp
  have mono: "1 \<le> backoffMultiplier cfg \<longrightarrow>
      backoffMultiplier cfg ^ k * 1000 \<le> backoffMultiplier cfg ^ (k + 1) * 1000"
    by (simp add: mult_left_mono)
  show ?thesis
    using att len mono by (simp add: requeue_def Let_def)
qed

lemma one_message_state_store:
  "store one_message_state =
     [\<lparr>data = \<lparr>topic = ''topic1'', message = ''Message Body 1'', time = 1592425256831\<rparr>,
       attempts = 0\<rparr>]"
  by (simp add: one_message_state_def on_message_def messageReceived_def bridge_init_def
      test_config_def messageReceived_each_def fastq_push_def bridgeWorker_def Let_def)

theorem requeue_backoff_sequence_witness:
  "0 < length (store one_message_state) \<and> attempts (store one_message_state ! 0) = 0 \<and>
   fst (requeue (test_config\<lparr>maxAttempts := 10\<rparr>) ''http://example.com/1'' 0
          (requeue_times (test_config\<lparr>maxAttempts := 10\<rparr>) ''http://example.com/1'' 0 3
             one_message_state)) = Some 8000 \<and>
   fst (requeue (test_config\<lparr>maxAttempts := 10\<rparr>) ''http://example.com/1'' 0
          (requeue_times (test_config\<lparr>maxAttempts := 10\<rparr>) ''http://example.com/1'' 0 9
             one_message_state)) = None"
  using requeue_backoff_sequence [of 0 one_message_state 3 "test_config\<lparr>maxAttempts := 10\<rparr>"
      "''http://example.com/1''"]
    requeue_backoff_sequence [of 0 one_message_state 9 "test_config\<lparr>maxAttempts := 10\<rparr>"
      "''http://example.com/1''"]
  by (simp add: one_message_state_store test_config_def Let_def)

section \<open>Classification of the outcome of a request\<close>

lemma requeue_logs_irrelevant:
  "store (snd (requeue cfg ep r (st\<lparr>logs := l\<rparr>))) = store (snd (requeue cfg ep r st))"
  "timers (snd (requeue cfg ep r (st\<lparr>logs := l\<rparr>))) = timers (snd (requeue cfg ep r st))"
  by (simp_all add: requeue_def Let_def)

lemma bridgeWorker_settled_store_timers:
  "store (bridgeWorker_settled cfg ep r outcome st) =
     (if outcome = Rejected None \<or> (\<exists>s. outcome = Rejected (Some s) \<and> (s = 429 \<or> 500 \<le> s))
      then store (snd (requeue cfg ep r st)) else store st)"
  "timers (bridgeWorker_settled cfg ep r outcome st) =
     (if outcome = Rejected None \<or> (\<exists>s. outcome = Rejected (Some s) \<and> (s = 429 \<or> 500 \<le> s))
      then timers (snd (requeue cfg ep r st)) else timers st)"
  by (auto simp add: bridgeWorker_settled_def Let_def requeue_logs_irrelevant
      split: axios_outcome.splits option.splits)

lemma axios_retry_iff:
  "(axios_post_result res = Rejected None \<or>
      (\<exists>s. axios_post_result res = Rejected (Some s) \<and> (s = 429 \<or> 500 \<le> s))) =
   (res = NoResponse \<or> (\<exists>s. res = Response s \<and> (s = 429 \<or> 500 \<le> s)))"
  by (cases res) (auto simp add: axios_post_result_def)

lemma fastq_release_queues_cong:
  "queues s = queues st \<Longrightarrow> queues (fastq_release cfg ep r s) = queues (fastq_release cfg ep r st)"
  by (simp add: fastq_release_def split: option.splits list.splits)

lemma bridgeWorker_settled_queues:
  "queues (bridgeWorker_settled cfg ep r outcome st) = queues (fastq_release cfg ep r st)"
  unfolding bridgeWorker_settled_def Let_def
  by (rule fastq_release_queues_cong) (simp split: axios_outcome.splits option.splits)

text \<open>
  C4. When the request for a message settles, what the worker does depends only on the
  HTTP result, not on the endpoint: with no response, or with a response of status 429 or
  of status 500 and above, it does what \<^verbatim>\<open>requeue\<close> does; with any other status the
  message objects and the timers stay as they are (no requeue, no increment). In every
  case \<^verbatim>\<open>done\<close> is called, so the queue moves on. While the message still has attempts
  left, a retry timer is added and \<open>attempts\<close> grows by one if and only if the result is
  one of the retryable ones.
\<close>

theorem worker_outcome_classification:
  fixes res :: http_result
  defines "retry \<equiv> res = NoResponse \<or> (\<exists>s. res = Response s \<and> (s = 429 \<or> 500 \<le> s))"
  shows "(let st' = bridgeWorker_settled cfg ep r (axios_post_result res) st in
     store st' = (if retry then store (snd (requeue cfg ep r st)) else store st) \<and>
     timers st' = (if retry then timers (snd (requeue cfg ep r st)) else timers st) \<and>
     queues st' = queues (fastq_release cfg ep r st) \<and>
     (r < length (store st) \<and> int (attempts (store st ! r)) < maxAttempts cfg - 1 \<longrightarrow>
        (timers st' =
           timers st @ [(backoffMultiplier cfg ^ attempts (store st ! r) * 1000, ep, r)]) = retry \<and>
        (attempts (store st' ! r) = attempts (store st ! r) + 1) = retry))"
  unfolding Let_def bridgeWorker_settled_store_timers axios_retry_iff retry_def
    bridgeWorker_settled_queues
  by (simp add: requeue_def Let_def)

lemma one_message_state_timers: "timers one_message_state = []"
  by (simp add: one_message_state_def on_message_def bridge_init_def)

theorem worker_outcome_classification_witness:
  "0 < length (store one_message_state) \<and>
   int (attempts (store one_message_state ! 0)) < maxAttempts test_config - 1 \<and>
   timers (bridgeWorker_settled test_config ''http://example.com/1'' 0
             (axios_post_result (Response 503)) one_message_state) =
     [(1000, ''http://example.com/1'', 0)] \<and>
   timers (bridgeWorker_settled test_config ''http://example.com/1'' 0
             (axios_post_result (Response 404)) one_message_state) = []"
  using worker_outcome_classification [of test_config "''http://example.com/1''" 0 "Response 503"
      one_message_state]
    worker_outcome_classification [of test_config "''http://example.com/1''" 0 "Response 404"
      one_message_state]
  by (simp add: one_message_state_store one_message_state_timers test_config_def Let_def
      requeue_def)

section \<open>The bound on the queue length\<close>

lemma queues_bounded_iff:
  "queues_bounded cfg st =
     list_all (\<lambda>(ep, q). int (length (waiting q)) \<le> maxQueueLength cfg) (queues st)"
  by (simp add: queues_bounded_def getQueueLength_def list_all_iff case_prod_beta)

lemma list_all_update:
  "list_all P al \<Longrightarrow> P (k, v) \<Longrightarrow> list_all P (AList.update k v al)"
  by (induction al) auto

lemma queues_bounded_push:
  assumes "queues_bounded cfg st"
    and "\<And>q. map_of (queues st) ep = Some q \<Longrightarrow> int (length (waiting q)) < maxQueueLength cfg"
  shows "queues_bounded cfg (fastq_push cfg ep r st)"
  using assms
  by (auto simp add: queues_bounded_iff fastq_push_def intro!: list_all_update
      split: option.splits)

lemma queues_bounded_each:
  "queues_bounded cfg st \<Longrightarrow> queues_bounded cfg (messageReceived_each cfg tp r ep st)"
proof -
  assume b: "queues_bounded cfg st"
  show ?thesis
  proof (cases "map_of (queues st) ep")
    case None
    then show ?thesis using b by (simp add: messageReceived_each_def)
  next
    case (Some q)
    show ?thesis
    proof (cases "int (length (waiting q)) < maxQueueLength cfg")
      case True
      then have "queues_bounded cfg (fastq_push cfg ep r st)"
        using b Some by (intro queues_bounded_push) auto
      then show ?thesis using Some True by (simp add: messageReceived_each_def)
    next
      case False
      then show ?thesis using b Some
        by (simp add: messageReceived_each_def queues_bounded_iff)
    qed
  qed
qed

lemma queues_bounded_fold:
  "queues_bounded cfg st \<Longrightarrow> queues_bounded cfg (fold (messageReceived_each cfg tp r) eps st)"
  by (induction eps arbitrary: st) (simp_all add: queues_bounded_each)

lemma queues_bounded_messageReceived:
  "queues_bounded cfg st \<Longrightarrow> queues_bounded cfg (messageReceived toString cfg now tp msg st)"
  unfolding messageReceived_def Let_def
  by (rule queues_bounded_fold) (simp add: queues_bounded_iff)

lemma queues_bounded_release:
  assumes "queues_bounded cfg st"
  shows "queues_bounded cfg (fastq_release cfg ep r st)"
proof (cases "map_of (queues st) ep")
  case None
  then show ?thesis using assms by (simp add: fastq_release_def)
next
  case (Some q)
  then have "(ep, q) \<in> set (queues st)" by (rule map_of_SomeD)
  then have q: "int (length (waiting q)) \<le> maxQueueLength cfg"
    using assms by (auto simp add: queues_bounded_iff list_all_iff)
  show ?thesis
    using assms Some q
    by (auto simp add: queues_bounded_iff fastq_release_def intro!: list_all_update
        split: list.splits)
qed

lemma queues_bounded_settled:
  assumes "queues_bounded cfg st"
  shows "queues_bounded cfg (bridgeWorker_settled cfg ep r outcome st)"
proof -
  have "\<And>s. queues s = queues st \<Longrightarrow> queues_bounded cfg s"
    using assms by (simp add: queues_bounded_iff)
  then show ?thesis
    unfolding bridgeWorker_settled_def Let_def
    by (intro queues_bounded_release) (simp split: axios_outcome.splits option.splits)
qed

lemma bridge_init_queues_aux:
  "list_all (\<lambda>(ep, q). waiting q = []) qs \<Longrightarrow>
   list_all (\<lambda>(ep, q). waiting q = [])
     (fold (\<lambda>endpoint qs. AList.update endpoint \<lparr>running = [], waiting = []\<rparr> qs) eps qs)"
  by (induction eps arbitrary: qs) (simp_all add: list_all_update)

lemma bridge_init_queues:
  "list_all (\<lambda>(ep, q). waiting q = []) (queues (bridge_init cfg))"
  using bridge_init_queues_aux [of "[]"] by (simp add: bridge_init_def)

lemma fastq_push_other:
  "ep' \<noteq> ep \<Longrightarrow> map_of (queues (fastq_push cfg ep r st)) ep' = map_of (queues st) ep'"
  by (simp add: fastq_push_def update_conv' split: option.splits)

lemma messageReceived_each_other:
  "ep' \<noteq> ep \<Longrightarrow> map_of (queues (messageReceived_each cfg tp r ep st)) ep' = map_of (queues st) ep'"
  by (simp add: messageReceived_each_def fastq_push_other split: option.splits)

lemma messageReceived_each_same:
  "map_of (queues st) ep = Some q \<Longrightarrow>
   map_of (queues (messageReceived_each cfg tp r ep st)) ep =
     Some (if int (length (waiting q)) < maxQueueLength cfg
           then (if int (length (running q)) = concurrency cfg
                 then q\<lparr>waiting := waiting q @ [r]\<rparr> else q\<lparr>running := running q @ [r]\<rparr>)
           else q)"
  by (simp add: messageReceived_each_def fastq_push_def update_conv')

lemma messageReceived_each_queue:
  "map_of (queues st) ep = Some q \<Longrightarrow> \<not> int (length (waiting q)) < maxQueueLength cfg \<Longrightarrow>
   map_of (queues (messageReceived_each cfg tp r ep' st)) ep = Some q"
  by (cases "ep' = ep") (simp_all add: messageReceived_each_other messageReceived_each_same)

lemma queues_bounded_step:
  "queues_bounded cfg st \<Longrightarrow> \<not> is_timer ev \<Longrightarrow> queues_bounded cfg (step toString cfg ev st)"
proof (cases ev)
  case (Message tp msg now)
  assume "queues_bounded cfg st"
  then have "queues_bounded cfg (st\<lparr>messagesCount := messagesCount st + 1\<rparr>)"
    by (simp add: queues_bounded_iff)
  then show ?thesis
    using Message by (simp add: on_message_def queues_bounded_messageReceived)
next
  case (Settled ep r outcome)
  assume "queues_bounded cfg st"
  then show ?thesis
    using Settled by (simp add: queues_bounded_settled split: option.splits)
next
  case (TimerFired i)
  assume "\<not> is_timer ev"
  then show ?thesis using TimerFired by simp
qed

lemmas eval_defs =
  run_def on_message_def messageReceived_def messageReceived_each_def fastq_push_def
  fastq_release_def bridgeWorker_def bridgeWorker_settled_def requeue_def bridge_init_def
  test_config_def small_config_def two_endpoint_config_def Let_def

lemma overflow_queues:
  "queues (run (\<lambda>s. s) small_config overflow_events (bridge_init small_config)) =
     [(''http://example.com/1'', \<lparr>running = [1], waiting = [2, 0]\<rparr>)]"
  by (simp add: overflow_events_def eval_defs)

lemma first_queue_full_queues:
  "queues first_queue_full =
     [(''http://example.com/1'', \<lparr>running = [0], waiting = [1]\<rparr>),
      (''http://example.com/2'', \<lparr>running = [], waiting = []\<rparr>)]"
  "length (store first_queue_full) = 2"
  by (simp_all add: first_queue_full_def fill_events_def eval_defs)

lemma first_queue_empty_queues:
  "queues first_queue_empty =
     [(''http://example.com/1'', \<lparr>running = [], waiting = []\<rparr>),
      (''http://example.com/2'', \<lparr>running = [], waiting = []\<rparr>)]"
  "length (store first_queue_empty) = 2"
  by (simp_all add: first_queue_empty_def first_queue_full_def fill_events_def drain_events_def eval_defs)

text \<open>
  What the first admission does guarantee. The arrival of a message and the settling of
  a request keep every queue within \<^verbatim>\<open>maxQueueLength\<close>, so the bound holds along every
  run of a new bridge in which no retry timer fires. A new message that finds the queue
  of an endpoint full leaves that queue exactly as it was.
\<close>

theorem queue_bound_first_admission:
  "(queues_bounded cfg st \<longrightarrow>
      queues_bounded cfg (step toString cfg (Message tp msg now) st) \<and>
      queues_bounded cfg (step toString cfg (Settled ep r outcome) st)) \<and>
   (0 \<le> maxQueueLength cfg \<and> list_all (\<lambda>e. \<not> is_timer e) evs \<longrightarrow>
      queues_bounded cfg (run toString cfg evs (bridge_init cfg))) \<and>
   (map_of (queues st) ep = Some q \<and> \<not> int (length (waiting q)) < maxQueueLength cfg \<longrightarrow>
      map_of (queues (step toString cfg (Message tp msg now) st)) ep = Some q)"
proof (intro conjI impI)
  assume "queues_bounded cfg st"
  then show "queues_bounded cfg (step toString cfg (Message tp msg now) st)"
    by (rule queues_bounded_step) simp
next
  assume "queues_bounded cfg st"
  then show "queues_bounded cfg (step toString cfg (Settled ep r outcome) st)"
    by (rule queues_bounded_step) simp
next
  assume a: "0 \<le> maxQueueLength cfg \<and> list_all (\<lambda>e. \<not> is_timer e) evs"
  have init: "queues_bounded cfg (bridge_init cfg)"
    using a bridge_init_queues [of cfg] by (auto simp add: queues_bounded_iff list_all_iff)
  have "\<And>s. queues_bounded cfg s \<Longrightarrow> list_all (\<lambda>e. \<not> is_timer e) evs \<Longrightarrow>
      queues_bounded cfg (fold (step toString cfg) evs s)"
    by (induction evs) (simp_all add: queues_bounded_step)
  then show "queues_bounded cfg (run toString cfg evs (bridge_init cfg))"
    using a init by (simp add: run_def)
next
  assume a: "map_of (queues st) ep = Some q \<and> \<not> int (length (waiting q)) < maxQueueLength cfg"
  have "\<And>s. map_of (queues s) ep = Some q \<Longrightarrow>
      map_of (queues (fold (messageReceived_each cfg tp (length (store st))) eps s)) ep = Some q"
    for eps
    using a by (induction eps) (simp_all add: messageReceived_each_queue)
  then show "map_of (queues (step toString cfg (Message tp msg now) st)) ep = Some q"
    using a by (simp add: on_message_def messageReceived_def Let_def)
qed

lemma before_timer_queues:
  "queues (run (\<lambda>s. s) small_config (butlast overflow_events) (bridge_init small_config)) =
     [(''http://example.com/1'', \<lparr>running = [1], waiting = [2]\<rparr>)]"
  by (simp add: overflow_events_def eval_defs)

theorem queue_bound_first_admission_witness:
  "(let st = run (\<lambda>s. s) small_config (butlast overflow_events) (bridge_init small_config);
        q = \<lparr>running = [1], waiting = [2]\<rparr>
    in queues_bounded small_config st \<and>
       0 \<le> maxQueueLength small_config \<and>
       list_all (\<lambda>e. \<not> is_timer e) (butlast overflow_events) \<and>
       map_of (queues st) ''http://example.com/1'' = Some q \<and>
       \<not> int (length (waiting q)) < maxQueueLength small_config \<and>
       queues_bounded small_config (step (\<lambda>s. s) small_config (Message ''topic1'' ''m4'' 4) st) \<and>
       map_of (queues (step (\<lambda>s. s) small_config (Message ''topic1'' ''m4'' 4) st))
         ''http://example.com/1'' = Some q)"
  using queue_bound_first_admission [of small_config
      "run (\<lambda>s. s) small_config (butlast overflow_events) (bridge_init small_config)" "\<lambda>s. s"
      "''topic1''" "''m4''" 4 "''http://example.com/1''" 1 Fulfilled "butlast overflow_events"
      "\<lparr>running = [1], waiting = [2]\<rparr>"]
  unfolding Let_def queues_bounded_def getQueueLength_def before_timer_queues
  by (simp add: overflow_events_def small_config_def)

section \<open>Independence of the endpoints at admission\<close>

lemma messageReceived_each_rel:
  assumes "map_of (queues s1) B = map_of (queues s2) B"
  shows "map_of (queues (messageReceived_each cfg tp r ep s1)) B =
         map_of (queues (messageReceived_each cfg tp r ep s2)) B"
proof (cases "ep = B")
  case False
  then show ?thesis using assms by (simp add: messageReceived_each_other)
next
  case True
  show ?thesis
  proof (cases "map_of (queues s1) B")
    case None
    then show ?thesis using assms True by (simp add: messageReceived_each_def)
  next
    case (Some q)
    then show ?thesis using assms True by (simp add: messageReceived_each_same)
  qed
qed

lemma messageReceived_fold_rel:
  "map_of (queues s1) B = map_of (queues s2) B \<Longrightarrow>
   map_of (queues (fold (messageReceived_each cfg tp r) eps s1)) B =
   map_of (queues (fold (messageReceived_each cfg tp r) eps s2)) B"
proof (induction eps arbitrary: s1 s2)
  case Nil
  then show ?case by simp
next
  case (Cons ep eps)
  show ?case
    using Cons.IH [OF messageReceived_each_rel [OF Cons.prems]] by simp
qed

lemma messageReceived_fold_absent:
  "B \<notin> set eps \<Longrightarrow>
   map_of (queues (fold (messageReceived_each cfg tp r) eps s)) B = map_of (queues s) B"
  by (induction eps arbitrary: s) (simp_all add: messageReceived_each_other)

lemma messageReceived_fold_distinct:
  assumes "distinct eps" and "B \<in> set eps" and "map_of (queues s) B = Some q"
  shows "map_of (queues (fold (messageReceived_each cfg tp r) eps s)) B =
     Some (if int (length (waiting q)) < maxQueueLength cfg
           then (if int (length (running q)) = concurrency cfg
                 then q\<lparr>waiting := waiting q @ [r]\<rparr> else q\<lparr>running := running q @ [r]\<rparr>)
           else q)"
  using assms
proof (induction eps arbitrary: s)
  case Nil
  then show ?case by simp
next
  case (Cons ep eps)
  show ?case
  proof (cases "ep = B")
    case True
    then have "B \<notin> set eps" using Cons.prems(1) by simp
    then show ?thesis
      using True Cons.prems(3)
      by (simp add: messageReceived_fold_absent messageReceived_each_same)
  next
    case False
    then have "B \<in> set eps" using Cons.prems(2) by simp
    moreover have "distinct eps" using Cons.prems(1) by simp
    moreover have "map_of (queues (messageReceived_each cfg tp r ep s)) B = Some q"
      using False Cons.prems(3) by (simp add: messageReceived_each_other)
    ultimately show ?thesis using Cons.IH by simp
  qed
qed

lemma fastq_record_changed:
  "q\<lparr>waiting := waiting q @ [r]\<rparr> \<noteq> q" "q\<lparr>running := running q @ [r]\<rparr> \<noteq> q"
proof -
  show "q\<lparr>waiting := waiting q @ [r]\<rparr> \<noteq> q"
  proof
    assume "q\<lparr>waiting := waiting q @ [r]\<rparr> = q"
    then have "waiting (q\<lparr>waiting := waiting q @ [r]\<rparr>) = waiting q" by simp
    then show False by simp
  qed
  show "q\<lparr>running := running q @ [r]\<rparr> \<noteq> q"
  proof
    assume "q\<lparr>running := running q @ [r]\<rparr> = q"
    then have "running (q\<lparr>running := running q @ [r]\<rparr>) = running q" by simp
    then show False by simp
  qed
qed

text \<open>
  C9. Two states with the same endpoints and the same message store, in which the queue
  of endpoint \<open>B\<close> is the same while the other queues may differ in any way: the same
  inbound message leaves the same queue for \<open>B\<close> in both. The message is admitted to \<open>B\<close>
  (its queue changes) exactly when \<open>B\<close>'s own queue reports fewer than
  \<^verbatim>\<open>maxQueueLength\<close> waiting messages.
\<close>

theorem fan_out_independence:
  assumes "map fst (queues st1) = map fst (queues st2)"
    and "length (store st1) = length (store st2)"
    and "map_of (queues st1) B = map_of (queues st2) B"
  shows "map_of (queues (messageReceived toString cfg now tp msg st1)) B =
         map_of (queues (messageReceived toString cfg now tp msg st2)) B \<and>
         (distinct (map fst (queues st1)) \<and> map_of (queues st1) B = Some q \<longrightarrow>
            (map_of (queues (messageReceived toString cfg now tp msg st1)) B \<noteq> Some q) =
            (int (length (waiting q)) < maxQueueLength cfg))"
proof (intro conjI impI)
  show "map_of (queues (messageReceived toString cfg now tp msg st1)) B =
        map_of (queues (messageReceived toString cfg now tp msg st2)) B"
  proof -
    let ?new = "\<lparr>data = \<lparr>topic = tp, message = toString msg, time = now\<rparr>, attempts = 0\<rparr>"
    have "map_of (queues (fold (messageReceived_each cfg tp (length (store st1)))
              (map fst (queues st1)) (st1\<lparr>store := store st1 @ [?new]\<rparr>))) B =
          map_of (queues (fold (messageReceived_each cfg tp (length (store st1)))
              (map fst (queues st1)) (st2\<lparr>store := store st2 @ [?new]\<rparr>))) B"
      by (rule messageReceived_fold_rel) (simp add: assms(3))
    then show ?thesis
      using assms(1,2) by (simp add: messageReceived_def Let_def)
  qed
next
  assume a: "distinct (map fst (queues st1)) \<and> map_of (queues st1) B = Some q"
  let ?s = "st1\<lparr>store := store st1 @
      [\<lparr>data = \<lparr>topic = tp, message = toString msg, time = now\<rparr>, attempts = 0\<rparr>]\<rparr>"
  let ?r = "length (store st1)"
  have "(B, q) \<in> set (queues st1)" using a by (simp add: map_of_SomeD)
  then have mem: "B \<in> set (map fst (queues ?s))" by force
  have d: "distinct (map fst (queues ?s))" using a by simp
  have m: "map_of (queues ?s) B = Some q" using a by simp
  have res: "map_of (queues (messageReceived toString cfg now tp msg st1)) B =
     Some (if int (length (waiting q)) < maxQueueLength cfg
           then (if int (length (running q)) = concurrency cfg
                 then q\<lparr>waiting := waiting q @ [?r]\<rparr> else q\<lparr>running := running q @ [?r]\<rparr>)
           else q)"
    unfolding messageReceived_def Let_def
    by (rule messageReceived_fold_distinct [OF d mem m])
  show "(map_of (queues (messageReceived toString cfg now tp msg st1)) B \<noteq> Some q) =
      (int (length (waiting q)) < maxQueueLength cfg)"
    unfolding res using fastq_record_changed [of q ?r] by simp
qed

theorem fan_out_independence_witness:
  "map fst (queues first_queue_full) = map fst (queues first_queue_empty) \<and>
   length (store first_queue_full) = length (store first_queue_empty) \<and>
   map_of (queues first_queue_full) ''http://example.com/2'' =
     map_of (queues first_queue_empty) ''http://example.com/2'' \<and>
   distinct (map fst (queues first_queue_full)) \<and>
   map_of (queues first_queue_full) ''http://example.com/2'' = Some \<lparr>running = [], waiting = []\<rparr> \<and>
   map_of (queues first_queue_full) ''http://example.com/1'' \<noteq>
     map_of (queues first_queue_empty) ''http://example.com/1'' \<and>
   map_of (queues (messageReceived (\<lambda>s. s) two_endpoint_config 3 ''topic1'' ''m3'' first_queue_full))
     ''http://example.com/2'' =
   map_of (queues (messageReceived (\<lambda>s. s) two_endpoint_config 3 ''topic1'' ''m3'' first_queue_empty))
     ''http://example.com/2'' \<and>
   map_of (queues (messageReceived (\<lambda>s. s) two_endpoint_config 3 ''topic1'' ''m3'' first_queue_full))
     ''http://example.com/2'' \<noteq> Some \<lparr>running = [], waiting = []\<rparr>"
proof -
  have h1: "map fst (queues first_queue_full) = map fst (queues first_queue_empty)"
    and h2: "length (store first_queue_full) = length (store first_queue_empty)"
    and h3: "map_of (queues first_queue_full) ''http://example.com/2'' =
      map_of (queues first_queue_empty) ''http://example.com/2''"
    and h4: "distinct (map fst (queues first_queue_full))"
    and h5: "map_of (queues first_queue_full) ''http://example.com/2'' =
      Some \<lparr>running = [], waiting = []\<rparr>"
    and h6: "map_of (queues first_queue_full) ''http://example.com/1'' \<noteq>
      map_of (queues first_queue_empty) ''http://example.com/1''"
    by (simp_all add: first_queue_full_queues first_queue_empty_queues)
  have h7: "int (length (waiting \<lparr>running = [], waiting = []\<rparr>)) < maxQueueLength two_endpoint_config"
    by (simp add: two_endpoint_config_def small_config_def)
  show ?thesis
    using fan_out_independence [OF h1 h2 h3, of "\<lambda>s. s" two_endpoint_config 3 "''topic1''" "''m3''"
        "\<lparr>running = [], waiting = []\<rparr>"] h1 h2 h3 h4 h5 h6 h7
    by blast
qed

section \<open>The body of every request\<close>

lemma in_set_update:
  "x \<in> set (AList.update k v al) \<Longrightarrow> x = (k, v) \<or> x \<in> set al"
  by (induction al) (auto split: if_splits)

lemma bridgeWorker_posts_faithful:
  "r < length (store st) \<Longrightarrow> posts_faithful st \<Longrightarrow> posts_faithful (bridgeWorker cfg ep r st)"
  by (simp add: posts_faithful_def bridgeWorker_def Let_def)

lemma posts_faithful_cong:
  "store s = store st \<Longrightarrow> posts s = posts st \<Longrightarrow> posts_faithful s = posts_faithful st"
  by (simp add: posts_faithful_def)

lemma refs_below_cong:
  "queues s = queues st \<Longrightarrow> timers s = timers st \<Longrightarrow> refs_below n s = refs_below n st"
  by (simp add: refs_below_def)

lemma bridgeWorker_refs [simp]:
  "refs_below n (bridgeWorker cfg ep r st) = refs_below n st"
  by (simp add: refs_below_def)

lemma refs_below_queue:
  "refs_below n st \<Longrightarrow> map_of (queues st) ep = Some q \<Longrightarrow>
   list_all (\<lambda>r. r < n) (running q) \<and> list_all (\<lambda>r. r < n) (waiting q)"
  by (auto simp add: refs_below_def list_all_iff dest!: map_of_SomeD)

lemma refs_below_update:
  "refs_below n st \<Longrightarrow> list_all (\<lambda>r. r < n) (running q) \<Longrightarrow> list_all (\<lambda>r. r < n) (waiting q) \<Longrightarrow>
   refs_below n (st\<lparr>queues := AList.update ep q (queues st)\<rparr>)"
  by (auto simp add: refs_below_def list_all_iff dest!: in_set_update)

lemma fastq_push_refs:
  assumes "r < n" and "refs_below n st"
  shows "refs_below n (fastq_push cfg ep r st)"
proof (cases "map_of (queues st) ep")
  case None
  then show ?thesis using assms by (simp add: fastq_push_def)
next
  case (Some q)
  note q = refs_below_queue [OF assms(2) Some]
  show ?thesis
  proof (cases "int (length (running q)) = concurrency cfg")
    case True
    have "refs_below n (st\<lparr>queues := AList.update ep (q\<lparr>waiting := waiting q @ [r]\<rparr>) (queues st)\<rparr>)"
      using assms q by (intro refs_below_update) simp_all
    then show ?thesis using Some True by (simp add: fastq_push_def)
  next
    case False
    have "refs_below n (st\<lparr>queues := AList.update ep (q\<lparr>running := running q @ [r]\<rparr>) (queues st)\<rparr>)"
      using assms q by (intro refs_below_update) simp_all
    then show ?thesis
      using Some False by (simp add: fastq_push_def)
  qed
qed

lemma fastq_push_posts:
  assumes "r < length (store st)" and "posts_faithful st"
  shows "posts_faithful (fastq_push cfg ep r st)"
proof -
  have "posts_faithful (st\<lparr>queues := qs\<rparr>)" for qs
    using assms(2) by (simp add: posts_faithful_def)
  then show ?thesis
    using assms
    by (simp add: fastq_push_def bridgeWorker_posts_faithful split: option.splits)
qed

lemma fastq_release_refs:
  assumes "refs_below n st"
  shows "refs_below n (fastq_release cfg ep r st)"
proof (cases "map_of (queues st) ep")
  case None
  then show ?thesis using assms by (simp add: fastq_release_def)
next
  case (Some q)
  note q = refs_below_queue [OF assms Some]
  have rem: "list_all (\<lambda>r. r < n) (remove1 r (running q))"
    using q by (auto simp add: list_all_iff dest: notin_set_remove1)
  show ?thesis
  proof (cases "waiting q")
    case Nil
    have "refs_below n (st\<lparr>queues := AList.update ep (q\<lparr>running := remove1 r (running q)\<rparr>) (queues st)\<rparr>)"
      using assms q rem by (intro refs_below_update) simp_all
    then show ?thesis using Some Nil by (simp add: fastq_release_def)
  next
    case (Cons nxt rest)
    have "refs_below n (st\<lparr>queues := AList.update ep
        (q\<lparr>running := remove1 r (running q) @ [nxt], waiting := rest\<rparr>) (queues st)\<rparr>)"
      using assms q rem Cons by (intro refs_below_update) simp_all
    then show ?thesis
      using Some Cons by (simp add: fastq_release_def)
  qed
qed

lemma fastq_release_posts:
  assumes "refs_below (length (store st)) st" and "posts_faithful st"
  shows "posts_faithful (fastq_release cfg ep r st)"
proof (cases "map_of (queues st) ep")
  case None
  then show ?thesis using assms by (simp add: fastq_release_def)
next
  case (Some q)
  note q = refs_below_queue [OF assms(1) Some]
  have upd: "posts_faithful (st\<lparr>queues := qs\<rparr>)" for qs
    using assms(2) by (simp add: posts_faithful_def)
  show ?thesis
  proof (cases "waiting q")
    case Nil
    then show ?thesis using Some upd by (simp add: fastq_release_def)
  next
    case (Cons nxt rest)
    then have "nxt < length (store st)" using q by simp
    then show ?thesis
      using Some Cons upd by (simp add: fastq_release_def bridgeWorker_posts_faithful)
  qed
qed

lemma map_data_update:
  "map data (xs[r := (xs ! r)\<lparr>attempts := a\<rparr>]) = map data xs"
  by (cases "r < length xs") (simp_all add: map_update list_update_same_conv list_update_beyond)

lemma requeue_data:
  "map data (store (snd (requeue cfg ep r st))) = map data (store st)"
  by (simp add: requeue_def Let_def map_data_update)

lemma data_nth_cong:
  "map data xs = map data ys \<Longrightarrow> i < length ys \<Longrightarrow> data (xs ! i) = data (ys ! i)"
  by (metis length_map nth_map)

lemma posts_faithful_data:
  assumes "posts_faithful st" and "map data (store s) = map data (store st)"
    and "posts s = posts st"
  shows "posts_faithful s"
proof -
  have len: "length (store s) = length (store st)"
    using assms(2) by (metis length_map)
  show ?thesis
    unfolding posts_faithful_def list_all_iff
  proof (intro ballI)
    fix p
    assume "p \<in> set (posts s)"
    then have "p \<in> set (posts st)" using assms(3) by simp
    then have a: "content_type p = ''application/json'' \<and> post_task p < length (store st) \<and>
        body p = data (store st ! post_task p)"
      using assms(1) by (simp add: posts_faithful_def list_all_iff)
    then have "data (store s ! post_task p) = data (store st ! post_task p)"
      using data_nth_cong [OF assms(2)] by simp
    then show "content_type p = ''application/json'' \<and> post_task p < length (store s) \<and>
        body p = data (store s ! post_task p)"
      using a len by simp
  qed
qed

lemma requeue_posts:
  assumes "posts_faithful st"
  shows "posts_faithful (snd (requeue cfg ep r st))"
  using assms by (rule posts_faithful_data) (simp_all add: requeue_data)

lemma requeue_refs:
  assumes "r < n" and "refs_below n st"
  shows "refs_below n (snd (requeue cfg ep r st))"
  using assms by (simp add: refs_below_def requeue_def Let_def)

lemma settled_inner:
  fixes outcome :: axios_outcome and cfg :: config and ep :: endpoint and tp :: string
  assumes "r < length (store st)" and "refs_below (length (store st)) st" and "posts_faithful st"
  defines "s \<equiv> (case outcome of
           Fulfilled \<Rightarrow> st\<lparr>logs := logs st @ [Debug_Success tp ep]\<rparr>
         | Rejected response \<Rightarrow>
             (let st1 = st\<lparr>logs := logs st @ [Warn_Failed tp ep]\<rparr> in
              case response of
                Some status \<Rightarrow>
                  if status = 429 \<or> status \<ge> 500
                  then snd (requeue cfg ep r st1) else st1
              | None \<Rightarrow> snd (requeue cfg ep r st1)))"
  shows "length (store s) = length (store st) \<and> map data (store s) = map data (store st) \<and>
         refs_below (length (store st)) s \<and> posts_faithful s"
proof -
  have l: "refs_below (length (store st)) (st\<lparr>logs := x\<rparr>)" "posts_faithful (st\<lparr>logs := x\<rparr>)" for x
    using assms(2,3) by (simp_all add: refs_below_def posts_faithful_def)
  show ?thesis
    unfolding s_def Let_def
    using assms(1) l
    by (simp add: requeue_data requeue_posts requeue_refs split: axios_outcome.splits option.splits)
qed

lemma bridgeWorker_settled_inv:
  assumes "r < length (store st)" and "refs_below (length (store st)) st" and "posts_faithful st"
  shows "map data (store (bridgeWorker_settled cfg ep r outcome st)) = map data (store st) \<and>
         refs_below (length (store st)) (bridgeWorker_settled cfg ep r outcome st) \<and>
         posts_faithful (bridgeWorker_settled cfg ep r outcome st)"
proof -
  define s where "s = (case outcome of
           Fulfilled \<Rightarrow> st\<lparr>logs := logs st @ [Debug_Success (topic (data (store st ! r))) ep]\<rparr>
         | Rejected response \<Rightarrow>
             (let st1 = st\<lparr>logs := logs st @ [Warn_Failed (topic (data (store st ! r))) ep]\<rparr> in
              case response of
                Some status \<Rightarrow>
                  if status = 429 \<or> status \<ge> 500
                  then snd (requeue cfg ep r st1) else st1
              | None \<Rightarrow> snd (requeue cfg ep r st1)))"
  have i: "length (store s) = length (store st)" "map data (store s) = map data (store st)"
    "refs_below (length (store st)) s" "posts_faithful s"
    using settled_inner [OF assms, where outcome = outcome and cfg = cfg and ep = ep
      and tp = "topic (data (store st ! r))"]
    unfolding s_def by simp_all
  have eq: "bridgeWorker_settled cfg ep r outcome st = fastq_release cfg ep r s"
    by (simp add: bridgeWorker_settled_def s_def Let_def)
  have "refs_below (length (store st)) (fastq_release cfg ep r s)"
    using i(3) by (rule fastq_release_refs)
  moreover have "posts_faithful (fastq_release cfg ep r s)"
    using i(1,3,4) by (intro fastq_release_posts) simp_all
  ultimately show ?thesis
    using i(2) by (simp add: eq)
qed

lemma refs_below_mono:
  "refs_below n st \<Longrightarrow> n \<le> m \<Longrightarrow> refs_below m st"
  by (fastforce simp add: refs_below_def list_all_iff)

lemma posts_faithful_append:
  assumes "posts_faithful st"
  shows "posts_faithful (st\<lparr>store := store st @ [x]\<rparr>)"
  using assms by (auto simp add: posts_faithful_def list_all_iff nth_append)

lemma messageReceived_each_inv:
  assumes "r < length (store st)" and "refs_below (length (store st)) st" and "posts_faithful st"
  shows "refs_below (length (store st)) (messageReceived_each cfg tp r ep st) \<and>
         posts_faithful (messageReceived_each cfg tp r ep st)"
proof (cases "map_of (queues st) ep")
  case None
  then show ?thesis using assms by (simp add: messageReceived_each_def)
next
  case (Some q)
  have l: "refs_below (length (store st)) (st\<lparr>logs := x\<rparr>)" "posts_faithful (st\<lparr>logs := x\<rparr>)" for x
    using assms(2,3) by (simp_all add: refs_below_def posts_faithful_def)
  show ?thesis
    using Some l assms
    by (simp add: messageReceived_each_def fastq_push_refs fastq_push_posts)
qed

lemma messageReceived_fold_inv:
  assumes "r < length (store st)" and "refs_below (length (store st)) st" and "posts_faithful st"
  shows "refs_below (length (store st)) (fold (messageReceived_each cfg tp r) eps st) \<and>
         posts_faithful (fold (messageReceived_each cfg tp r) eps st)"
  using assms
proof (induction eps arbitrary: st)
  case Nil
  then show ?case by simp
next
  case (Cons ep eps)
  note step = messageReceived_each_inv [OF Cons.prems, of cfg tp ep]
  have "r < length (store (messageReceived_each cfg tp r ep st))"
    using Cons.prems(1) by simp
  moreover have "refs_below (length (store (messageReceived_each cfg tp r ep st)))
      (messageReceived_each cfg tp r ep st)"
    using step by simp
  moreover have "posts_faithful (messageReceived_each cfg tp r ep st)"
    using step by simp
  ultimately show ?case
    using Cons.IH [of "messageReceived_each cfg tp r ep st"] by simp
qed

lemma messageReceived_inv:
  assumes "refs_below (length (store st)) st" and "posts_faithful st"
  shows "refs_below (length (store (messageReceived toString cfg now tp msg st)))
           (messageReceived toString cfg now tp msg st) \<and>
         posts_faithful (messageReceived toString cfg now tp msg st)"
proof -
  let ?new = "\<lparr>data = \<lparr>topic = tp, message = toString msg, time = now\<rparr>, attempts = 0\<rparr>"
  let ?s = "st\<lparr>store := store st @ [?new]\<rparr>"
  have "refs_below (length (store st)) ?s"
    using assms(1) by (simp add: refs_below_def)
  then have r: "refs_below (length (store ?s)) ?s"
    by (rule refs_below_mono) simp
  have p: "posts_faithful ?s"
    using assms(2) by (rule posts_faithful_append)
  have n: "length (store st) < length (store ?s)" by simp
  note f = messageReceived_fold_inv [OF n r p, of cfg tp "map fst (queues ?s)"]
  show ?thesis
    using f by (simp add: messageReceived_def Let_def)
qed

lemma timer_removed_refs:
  assumes "refs_below n st"
  shows "refs_below n (st\<lparr>timers := take i (timers st) @ drop (Suc i) (timers st)\<rparr>)"
  using assms
  by (auto simp add: refs_below_def list_all_iff dest: in_set_takeD in_set_dropD)

lemma timer_ref_valid:
  "refs_below n st \<Longrightarrow> i < length (timers st) \<Longrightarrow> timers st ! i = (tmo, ep, r) \<Longrightarrow> r < n"
  by (force simp add: refs_below_def list_all_length)

lemma running_ref_valid:
  "refs_below n st \<Longrightarrow> map_of (queues st) ep = Some q \<Longrightarrow> r \<in> set (running q) \<Longrightarrow> r < n"
  using refs_below_queue [of n st ep q] by (simp add: list_all_iff)

lemma step_inv:
  assumes "refs_below (length (store st)) st" and "posts_faithful st"
  shows "map data (store (step toString cfg ev st)) = map data (store st) @ received toString [ev] \<and>
         refs_below (length (store (step toString cfg ev st))) (step toString cfg ev st) \<and>
         posts_faithful (step toString cfg ev st)"
proof (cases ev)
  case (Message tp msg now)
  let ?s = "st\<lparr>messagesCount := messagesCount st + 1\<rparr>"
  have "refs_below (length (store ?s)) ?s" "posts_faithful ?s"
    using assms by (simp_all add: refs_below_def posts_faithful_def)
  then show ?thesis
    using Message messageReceived_inv [of ?s toString cfg now tp msg]
    by (simp add: on_message_def)
next
  case (Settled ep r outcome)
  show ?thesis
  proof (cases "map_of (queues st) ep")
    case None
    then show ?thesis using Settled assms by simp
  next
    case (Some q)
    show ?thesis
    proof (cases "r \<in> set (running q)")
      case False
      then show ?thesis using Settled Some assms by simp
    next
      case True
      then have r: "r < length (store st)"
        using running_ref_valid [OF assms(1) Some] by simp
      note i = bridgeWorker_settled_inv [OF r assms, of cfg ep outcome]
      then have "length (store (bridgeWorker_settled cfg ep r outcome st)) = length (store st)"
        by (metis length_map)
      then show ?thesis using Settled Some True i by simp
    qed
  qed
next
  case (TimerFired i)
  show ?thesis
  proof (cases "i < length (timers st)")
    case False
    then show ?thesis using TimerFired assms by simp
  next
    case True
    obtain tmo ep r where t: "timers st ! i = (tmo, ep, r)"
      by (cases "timers st ! i") auto
    let ?s = "st\<lparr>timers := take i (timers st) @ drop (Suc i) (timers st)\<rparr>"
    have r: "r < length (store ?s)"
      using timer_ref_valid [OF assms(1) True t] by simp
    have "refs_below (length (store ?s)) ?s"
      using timer_removed_refs [OF assms(1), of i] by simp
    then have a: "refs_below (length (store ?s)) (fastq_push cfg ep r ?s)"
      using r by (intro fastq_push_refs) simp_all
    have "posts_faithful ?s"
      using assms(2) by (simp add: posts_faithful_def)
    then have b: "posts_faithful (fastq_push cfg ep r ?s)"
      using r by (intro fastq_push_posts) simp_all
    show ?thesis
      using TimerFired True t a b by simp
  qed
qed

lemma received_Cons:
  "received toString (ev # evs) = received toString [ev] @ received toString evs"
  by (cases ev) simp_all

lemma run_inv:
  assumes "refs_below (length (store st)) st" and "posts_faithful st"
  shows "map data (store (run toString cfg evs st)) = map data (store st) @ received toString evs \<and>
         posts_faithful (run toString cfg evs st)"
  using assms
proof (induction evs arbitrary: st)
  case Nil
  then show ?case by (simp add: run_def)
next
  case (Cons ev evs)
  note s = step_inv [OF Cons.prems, of toString cfg ev]
  have "map data (store (run toString cfg evs (step toString cfg ev st))) =
      map data (store (step toString cfg ev st)) @ received toString evs \<and>
      posts_faithful (run toString cfg evs (step toString cfg ev st))"
    using s by (intro Cons.IH) simp_all
  then show ?case
    using s by (simp add: run_def received_Cons [of toString ev evs])
qed

lemma bridge_init_empty_aux:
  "list_all (\<lambda>(ep, q). running q = [] \<and> waiting q = []) qs \<Longrightarrow>
   list_all (\<lambda>(ep, q). running q = [] \<and> waiting q = [])
     (fold (\<lambda>endpoint qs. AList.update endpoint \<lparr>running = [], waiting = []\<rparr> qs) eps qs)"
  by (induction eps arbitrary: qs) (simp_all add: list_all_update)

lemma bridge_init_inv:
  "refs_below (length (store (bridge_init cfg))) (bridge_init cfg)" "posts_faithful (bridge_init cfg)"
proof -
  have "list_all (\<lambda>(ep, q). running q = [] \<and> waiting q = []) (queues (bridge_init cfg))"
    using bridge_init_empty_aux [of "[]"] by (simp add: bridge_init_def)
  then show "refs_below (length (store (bridge_init cfg))) (bridge_init cfg)"
    by (auto simp add: refs_below_def list_all_iff bridge_init_def)
  show "posts_faithful (bridge_init cfg)"
    by (simp add: posts_faithful_def bridge_init_def)
qed

text \<open>
  C5. Every call of the worker issues exactly one request: a POST to the endpoint with
  content type \<^verbatim>\<open>application/json\<close> whose body is the \<^verbatim>\<open>data\<close> object of the message,
  that is the three fields \<open>topic\<close>, \<open>message\<close> and \<open>time\<close>. Along every run of a new
  bridge each request issued carries exactly what \<^verbatim>\<open>messageReceived\<close> built when its
  message arrived: the broker topic, the payload as a string and the clock value read
  once at reception. So two requests for the same message, to whatever endpoint and on
  whatever attempt, have the same body and the same \<open>time\<close>.
\<close>

theorem posts_carry_reception_data:
  "posts (bridgeWorker cfg ep r st) =
     posts st @ [\<lparr>url = ep, body = data (store st ! r), content_type = ''application/json'',
                  post_timeout = timeout cfg, post_task = r\<rparr>] \<and>
   list_all (\<lambda>p. content_type p = ''application/json'' \<and>
                  post_task p < length (received toString evs) \<and>
                  body p = received toString evs ! post_task p)
     (posts (run toString cfg evs (bridge_init cfg))) \<and>
   (\<forall>p p'. p \<in> set (posts (run toString cfg evs (bridge_init cfg))) \<and>
            p' \<in> set (posts (run toString cfg evs (bridge_init cfg))) \<and>
            post_task p = post_task p' \<longrightarrow> body p = body p')"
proof -
  let ?st = "run toString cfg evs (bridge_init cfg)"
  have inv: "map data (store ?st) = received toString evs" "posts_faithful ?st"
    using run_inv [OF bridge_init_inv, of toString cfg evs] by (simp_all add: bridge_init_def)
  have len: "length (store ?st) = length (received toString evs)"
    using inv(1) by (metis length_map)
  have main: "content_type p = ''application/json'' \<and>
      post_task p < length (received toString evs) \<and>
      body p = received toString evs ! post_task p" if "p \<in> set (posts ?st)" for p
  proof -
    have a: "content_type p = ''application/json'' \<and> post_task p < length (store ?st) \<and>
        body p = data (store ?st ! post_task p)"
      using that inv(2) by (simp add: posts_faithful_def list_all_iff)
    then have "data (store ?st ! post_task p) = map data (store ?st) ! post_task p"
      by simp
    then show ?thesis using a len inv(1) by simp
  qed
  have "posts (bridgeWorker cfg ep r st) =
     posts st @ [\<lparr>url = ep, body = data (store st ! r), content_type = ''application/json'',
                  post_timeout = timeout cfg, post_task = r\<rparr>]"
    by (simp add: bridgeWorker_def Let_def)
  moreover have "list_all (\<lambda>p. content_type p = ''application/json'' \<and>
                  post_task p < length (received toString evs) \<and>
                  body p = received toString evs ! post_task p) (posts ?st)"
    using main by (simp add: list_all_iff)
  moreover have "\<forall>p p'. p \<in> set (posts ?st) \<and> p' \<in> set (posts ?st) \<and>
            post_task p = post_task p' \<longrightarrow> body p = body p'"
    using main by metis
  ultimately show ?thesis by blast
qed

lemma retry_posts:
  "posts (run (\<lambda>s. s) small_config retry_events (bridge_init small_config)) =
     [\<lparr>url = ''http://example.com/1'',
       body = \<lparr>topic = ''topic1'', message = ''Hello'', time = 1592425256831\<rparr>,
       content_type = ''application/json'', post_timeout = 60000, post_task = 0\<rparr>,
      \<lparr>url = ''http://example.com/1'',
       body = \<lparr>topic = ''topic1'', message = ''Hello'', time = 1592425256831\<rparr>,
       content_type = ''application/json'', post_timeout = 60000, post_task = 0\<rparr>]"
  by (simp add: retry_events_def run_def on_message_def messageReceived_def
      messageReceived_each_def fastq_push_def fastq_release_def bridgeWorker_def
      bridgeWorker_settled_def requeue_def bridge_init_def test_config_def small_config_def Let_def)

theorem posts_carry_reception_data_witness:
  "(let ps = posts (run (\<lambda>s. s) small_config retry_events (bridge_init small_config)) in
    length ps = 2 \<and> ps ! 0 \<in> set ps \<and> ps ! 1 \<in> set ps \<and>
    post_task (ps ! 0) = post_task (ps ! 1) \<and> body (ps ! 0) = body (ps ! 1) \<and>
    body (ps ! 1) = received (\<lambda>s. s) retry_events ! 0 \<and>
    time (body (ps ! 1)) = 1592425256831)"
proof -
  let ?ps = "posts (run (\<lambda>s. s) small_config retry_events (bridge_init small_config))"
  have h: "length ?ps = 2" "?ps ! 0 \<in> set ?ps" "?ps ! 1 \<in> set ?ps"
    "post_task (?ps ! 0) = post_task (?ps ! 1)" "post_task (?ps ! 1) = 0"
    "received (\<lambda>s. s) retry_events =
       [\<lparr>topic = ''topic1'', message = ''Hello'', time = 1592425256831\<rparr>]"
    unfolding retry_posts by (simp_all add: retry_events_def)
  note t = posts_carry_reception_data [of small_config "''http://example.com/1''" 0
      "bridge_init small_config" "\<lambda>s. s" retry_events]
  have eq: "body (?ps ! 0) = body (?ps ! 1)"
    using t h(2,3,4) by blast
  have "body (?ps ! 1) = received (\<lambda>s. s) retry_events ! post_task (?ps ! 1)"
    using t h(3) by (simp add: list_all_iff)
  then have b: "body (?ps ! 1) = received (\<lambda>s. s) retry_events ! 0"
    using h(5) by simp
  then have "time (body (?ps ! 1)) = 1592425256831"
    using h(6) by simp
  then show ?thesis
    using h eq b by (simp add: Let_def)
qed

section \<open>Connecting to the broker\<close>

lemma attemptConnection_success:
  assumes "\<forall>i<k. \<not> results !! i" and "results !! k"
  shows "attemptConnection cfg results a ds =
     Some (a + k, ds @ map (\<lambda>i. min (brokerConnectBackoffMultiplier cfg ^ (a + i) * 1000)
                                  (maxBrokerConnectWait cfg)) [0..<k])"
  using assms
proof (induction k arbitrary: results a ds)
  case 0
  then show ?case by (subst attemptConnection.simps) simp
next
  case (Suc k)
  have first: "\<not> shd results" using Suc.prems(1) by (metis snth.simps(1) zero_less_Suc)
  have rest: "\<forall>i<k. \<not> stl results !! i" "stl results !! k"
    using Suc.prems by (metis Suc_less_eq snth.simps(2), simp)
  let ?t = "\<lambda>i. min (brokerConnectBackoffMultiplier cfg ^ i * 1000) (maxBrokerConnectWait cfg)"
  have "attemptConnection cfg results a ds =
      attemptConnection cfg (stl results) (a + 1) (ds @ [?t a])"
    using first by (subst attemptConnection.simps) (simp add: Let_def min_def)
  also have "\<dots> = Some (a + 1 + k, (ds @ [?t a]) @ map (\<lambda>i. ?t (a + 1 + i)) [0..<k])"
    using rest by (rule Suc.IH)
  also have "map (\<lambda>i. ?t (a + 1 + i)) [0..<k] = map (\<lambda>i. ?t (a + i)) [Suc 0..<Suc k]"
    by (simp add: map_Suc_upt [symmetric] del: upt_Suc)
  finally show ?case
    by (simp add: upt_conv_Cons del: upt_Suc)
qed

lemma attemptConnection_resolves_on_success:
  assumes "attemptConnection cfg results a ds = Some res"
  shows "\<exists>k. results !! k"
proof (rule attemptConnection.raw_induct
    [where P = "\<lambda>cfg results a ds res. \<exists>k. results !! k" and cfg = cfg and results = results
      and attempt = a and delays = ds and y = res])
  fix rec :: "config \<Rightarrow> bool stream \<Rightarrow> nat \<Rightarrow> int list \<Rightarrow> (nat \<times> int list) option"
  fix c :: config and rs :: "bool stream" and attempt :: nat and delays :: "int list"
    and y :: "nat \<times> int list"
  assume IH: "\<And>c' rs' a' d' y'. rec c' rs' a' d' = Some y' \<Longrightarrow> \<exists>k. rs' !! k"
  assume eq: "(if shd rs then Some (attempt, delays)
      else let tmo = brokerConnectBackoffMultiplier c ^ attempt * 1000;
               tmo = if maxBrokerConnectWait c < tmo then maxBrokerConnectWait c else tmo
           in rec c (stl rs) (attempt + 1) (delays @ [tmo])) = Some y"
  show "\<exists>k. rs !! k"
  proof (cases "shd rs")
    case True
    then have "rs !! 0" by simp
    then show ?thesis by blast
  next
    case False
    then obtain d where "rec c (stl rs) (attempt + 1) d = Some y"
      using eq by (simp add: Let_def)
    then obtain k where "stl rs !! k" using IH by blast
    then have "rs !! Suc k" by simp
    then show ?thesis by blast
  qed
next
  show "attemptConnection cfg results a ds = Some res" by fact
qed

text \<open>
  C7. If the first \<open>k\<close> calls of \<^verbatim>\<open>mqtt.connectAsync\<close> fail and the next one succeeds, the
  promise of \<^verbatim>\<open>connectToBroker\<close> resolves with the counter at \<open>k\<close> (one increment per
  failure) after the delays \<open>min (m ^ i * 1000) maxBrokerConnectWait\<close> for
  \<open>i = 0, ..., k - 1\<close>, in this order, whatever \<open>k\<close> is. If no call ever succeeds the
  promise never settles: the result type has no rejection, and the loop has no other exit.
  A settled promise therefore means a successful connection.
\<close>

theorem connect_retries_with_capped_backoff:
  "((\<forall>i<k. \<not> results !! i) \<and> results !! k \<longrightarrow>
      connectToBroker cfg results =
        Some (k, map (\<lambda>i. min (brokerConnectBackoffMultiplier cfg ^ i * 1000)
                            (maxBrokerConnectWait cfg)) [0..<k])) \<and>
   ((\<forall>i. \<not> results !! i) \<longrightarrow> connectToBroker cfg results = None) \<and>
   (connectToBroker cfg results \<noteq> None \<longrightarrow> (\<exists>j. results !! j))"
proof (intro conjI impI)
  assume "(\<forall>i<k. \<not> results !! i) \<and> results !! k"
  then show "connectToBroker cfg results =
      Some (k, map (\<lambda>i. min (brokerConnectBackoffMultiplier cfg ^ i * 1000)
                          (maxBrokerConnectWait cfg)) [0..<k])"
    using attemptConnection_success [of k results cfg 0 "[]"]
    by (simp add: connectToBroker_def)
next
  assume "\<forall>i. \<not> results !! i"
  then show "connectToBroker cfg results = None"
    using attemptConnection_resolves_on_success [of cfg results 0 "[]"]
    by (cases "connectToBroker cfg results") (auto simp add: connectToBroker_def)
next
  assume "connectToBroker cfg results \<noteq> None"
  then show "\<exists>j. results !! j"
    using attemptConnection_resolves_on_success [of cfg results 0 "[]"]
    by (auto simp add: connectToBroker_def)
qed

theorem connect_retries_with_capped_backoff_witness:
  "\<not> (replicate 10 False @- sconst True) !! 9 \<and> (replicate 10 False @- sconst True) !! 10 \<and>
   connectToBroker test_config (replicate 10 False @- sconst True) =
     Some (10, [1000, 2000, 4000, 8000, 16000, 32000, 64000, 128000, 256000, 300000]) \<and>
   connectToBroker test_config (sconst False) = None"
proof -
  let ?r = "replicate 10 False @- sconst True"
  have a: "\<forall>i<10. \<not> ?r !! i"
    by (simp add: shift_snth)
  have b: "?r !! 10"
    by (simp add: shift_snth)
  have c: "\<forall>i. \<not> sconst False !! i" by simp
  have d: "map (\<lambda>i. min (brokerConnectBackoffMultiplier test_config ^ i * 1000)
                          (maxBrokerConnectWait test_config)) [0..<10] =
      [1000, 2000, 4000, 8000, 16000, 32000, 64000, 128000, 256000, 300000]"
    by (simp add: test_config_def upt_conv_Cons del: upt_Suc)
  show ?thesis
    using connect_retries_with_capped_backoff [of 10 ?r test_config]
      connect_retries_with_capped_backoff [of 0 "sconst False" test_config] a b c d
    by simp
qed

section \<open>Subscribing\<close>

lemma subscribeToTopics_calls:
  "fst (subscribeToTopics cfg subscribe) = topics cfg"
  by (simp add: subscribeToTopics_def Let_def)

lemma subscribeToTopics_ok:
  "list_all (\<lambda>t. subscribe t = None) (topics cfg) \<Longrightarrow>
   snd (subscribeToTopics cfg subscribe) = Inr ()"
proof -
  assume "list_all (\<lambda>t. subscribe t = None) (topics cfg)"
  then have "List.map_filter (\<lambda>s. s) (map subscribe (topics cfg)) = []"
    by (simp add: List.map_filter_def filter_empty_conv list_all_iff)
  then show ?thesis by (simp add: subscribeToTopics_def Let_def)
qed

lemma subscribeToTopics_fails:
  assumes "\<not> list_all (\<lambda>t. subscribe t = None) (topics cfg)"
  shows "\<exists>msg. snd (subscribeToTopics cfg subscribe) = Inl (Error msg)"
proof -
  have "List.map_filter (\<lambda>s. s) (map subscribe (topics cfg)) \<noteq> []"
    using assms by (simp add: List.map_filter_def filter_empty_conv list_all_iff)
  then obtain reason rest where
    "List.map_filter (\<lambda>s. s) (map subscribe (topics cfg)) = reason # rest"
    by (cases "List.map_filter (\<lambda>s. s) (map subscribe (topics cfg))") auto
  then show ?thesis by (simp add: subscribeToTopics_def Let_def)
qed

text \<open>
  C8. Once the connection is there, \<^verbatim>\<open>mqttClient.subscribe\<close> is called once for each
  configured topic, in one batch, whether or not a subscription fails. If every
  subscription succeeds the bridge is created. If any one fails, the constructor is
  rejected with an error, no further subscription is attempted, and the handler of
  \<^verbatim>\<open>index.js\<close> prints the error and exits the process with status 1.
\<close>

theorem subscribe_failure_is_fatal:
  "(connectToBroker cfg results \<noteq> None \<longrightarrow>
      (\<exists>res. bridge cfg results subscribe = Some (topics cfg, res))) \<and>
   (connectToBroker cfg results \<noteq> None \<and> list_all (\<lambda>t. subscribe t = None) (topics cfg) \<longrightarrow>
      bridge cfg results subscribe = Some (topics cfg, Inr (bridge_init cfg))) \<and>
   (connectToBroker cfg results \<noteq> None \<and> \<not> list_all (\<lambda>t. subscribe t = None) (topics cfg) \<longrightarrow>
      (\<exists>msg. bridge cfg results subscribe = Some (topics cfg, Inl (Error msg)) \<and>
             start_bridge (Inl (Error msg)) = ProcessExit 1 (''ERROR: '' @ msg)))"
proof -
  obtain calls res where sub: "subscribeToTopics cfg subscribe = (calls, res)"
    by (cases "subscribeToTopics cfg subscribe")
  have calls: "calls = topics cfg"
    using subscribeToTopics_calls [of cfg subscribe] sub by simp
  have ok: "list_all (\<lambda>t. subscribe t = None) (topics cfg) \<Longrightarrow> res = Inr ()"
    using subscribeToTopics_ok [of subscribe cfg] sub by simp
  have bad: "\<not> list_all (\<lambda>t. subscribe t = None) (topics cfg) \<Longrightarrow> \<exists>msg. res = Inl (Error msg)"
    using subscribeToTopics_fails [of subscribe cfg] sub by simp
  show ?thesis
  proof (cases "connectToBroker cfg results")
    case None
    then show ?thesis by simp
  next
    case (Some conn)
    show ?thesis
    proof (cases "list_all (\<lambda>t. subscribe t = None) (topics cfg)")
      case True
      then show ?thesis
        using Some sub calls ok by (simp add: bridge_def)
    next
      case False
      then obtain msg where "res = Inl (Error msg)" using bad by blast
      then show ?thesis
        using Some sub calls False by (simp add: bridge_def start_bridge_def)
    qed
  qed
qed

lemma connect_at_once: "connectToBroker test_config (sconst True) = Some (0, [])"
  unfolding connectToBroker_def by (subst attemptConnection.simps) simp

theorem subscribe_failure_is_fatal_witness:
  "connectToBroker test_config (sconst True) \<noteq> None \<and>
   \<not> list_all (\<lambda>t. refuse_topic2 t = None) (topics test_config) \<and>
   bridge test_config (sconst True) refuse_topic2 =
     Some ([''topic1'', ''topic2''],
           Inl (Error ''Failed to subscribe to all topics on mqtts://broker.losant.com. Reason: Not authorized'')) \<and>
   start_bridge (Inl (Error ''Failed to subscribe to all topics on mqtts://broker.losant.com. Reason: Not authorized'')) =
     ProcessExit 1 ''ERROR: Failed to subscribe to all topics on mqtts://broker.losant.com. Reason: Not authorized''"
proof -
  have a: "connectToBroker test_config (sconst True) \<noteq> None"
    by (simp add: connect_at_once)
  have b: "\<not> list_all (\<lambda>t. refuse_topic2 t = None) (topics test_config)"
    by (simp add: refuse_topic2_def test_config_def)
  have s: "subscribeToTopics test_config refuse_topic2 =
     ([''topic1'', ''topic2''],
      Inl (Error ''Failed to subscribe to all topics on mqtts://broker.losant.com. Reason: Not authorized''))"
    by (simp add: subscribeToTopics_def refuse_topic2_def test_config_def Let_def
        List.map_filter_def)
  have c: "bridge test_config (sconst True) refuse_topic2 =
     Some ([''topic1'', ''topic2''],
           Inl (Error ''Failed to subscribe to all topics on mqtts://broker.losant.com. Reason: Not authorized''))"
    unfolding bridge_def connect_at_once s by simp
  show ?thesis
    using subscribe_failure_is_fatal [of test_config "sconst True" refuse_topic2] a b c
    by auto
qed

section \<open>One message object for all endpoints\<close>

text \<open>
  C2 on the code. \<^verbatim>\<open>messageReceived\<close> creates one object and pushes that object to every
  queue, so the three endpoints of the test bridge hold the same reference. When the
  request to the first endpoint fails, \<^verbatim>\<open>requeue\<close> increments the counter of that object:
  the task of the second endpoint, which has not failed, now shows \<open>attempts = 1\<close>, and its
  own first failure is scheduled after 2000 ms instead of 1000 ms.
\<close>

theorem attempts_counter_is_shared:
  "(let st0 = one_message_state;
        st1 = step (\<lambda>s. s) test_config (Settled ''http://example.com/1'' 0 (Rejected None)) st0;
        st2 = step (\<lambda>s. s) test_config (Settled ''http://example.com/2'' 0 (Rejected None)) st1
    in map_of (queues st0) ''http://example.com/2'' = Some \<lparr>running = [0], waiting = []\<rparr> \<and>
       attempts (store st0 ! 0) = 0 \<and>
       map_of (queues st1) ''http://example.com/2'' = Some \<lparr>running = [0], waiting = []\<rparr> \<and>
       attempts (store st1 ! 0) = 1 \<and>
       timers st2 = [(1000, ''http://example.com/1'', 0), (2000, ''http://example.com/2'', 0)])"
  by (simp add: one_message_state_def eval_defs)

section \<open>Validation of the integer fields\<close>

lemma validate_bridge_rejects:
  assumes "field \<in> set integerConfigFields" and "\<not> isValidNumber (b field)"
  shows "\<exists>msg. validate_bridge parseURL b = Inl (Error msg)"
proof -
  have "filter (\<lambda>field. \<not> isValidNumber (b field)) integerConfigFields \<noteq> []"
    using assms by (simp add: filter_empty_conv) blast
  then obtain f fs where "filter (\<lambda>field. \<not> isValidNumber (b field)) integerConfigFields = f # fs"
    by (cases "filter (\<lambda>field. \<not> isValidNumber (b field)) integerConfigFields") auto
  then show ?thesis by (simp add: validate_bridge_def)
qed

lemma isValidNumber_iff:
  "isValidNumber v = (v = JUndefined \<or> (\<exists>n::int. 0 < n \<and> v = JNumber (of_int n)))"
proof (cases v)
  case (JNumber x)
  have "(of_int (floor x) = x \<and> 0 < x) = (\<exists>n::int. 0 < n \<and> x = of_int n)"
    by (metis of_int_0_less_iff of_int_floor_cancel)
  then show ?thesis using JNumber by (simp add: isValidNumber_def)
qed (simp_all add: isValidNumber_def)

lemma validate_bridge_accepts:
  assumes "list_all (\<lambda>field. isValidNumber (b field)) integerConfigFields"
    and "isValidArrayOfURLs parseURL (b ''httpEndpoints'') [''http:'', ''https:'']"
    and "isValidArrayOfURLs parseURL (JArray [b ''mqttEndpoint''])
           [''mqtt:'', ''mqtts:'', ''ws:'', ''wss:'']"
    and "isValidArrayOfStrings (b ''topics'')"
  shows "\<exists>b'. validate_bridge parseURL b = Inr b' \<and>
      b' ''concurrency'' = js_or (b ''concurrency'') DEFAULT_CONCURRENCY \<and>
      b' ''maxAttempts'' = js_or (b ''maxAttempts'') DEFAULT_MAX_ATTEMPTS \<and>
      b' ''timeout'' = js_or (b ''timeout'') DEFAULT_TIMEOUT \<and>
      b' ''backoffMultiplier'' = js_or (b ''backoffMultiplier'') DEFAULT_BACKOFF_MULTIPLIER \<and>
      b' ''maxQueueLength'' = js_or (b ''maxQueueLength'') DEFAULT_MAX_QUEUE_LENGTH \<and>
      b' ''maxBrokerConnectWait'' =
        js_or (b ''maxBrokerConnectWait'') DEFAULT_MAX_BROKER_CONNECT_WAIT \<and>
      b' ''brokerConnectBackoffMultiplier'' =
        js_or (b ''brokerConnectBackoffMultiplier'') DEFAULT_BROKER_CONNECT_BACKOFF_MULTIPLIER \<and>
      b' ''backOffMultiplier'' = b ''backOffMultiplier''"
proof -
  have "filter (\<lambda>field. \<not> isValidNumber (b field)) integerConfigFields = []"
    using assms(1) by (simp add: filter_empty_conv list_all_iff)
  then show ?thesis
    using assms(2,3,4) by (simp add: validate_bridge_def Let_def)
qed

lemma test_bridge_lookup:
  "k \<notin> {''httpEndpoints'', ''mqttEndpoint'', ''topics''} \<Longrightarrow>
     (test_bridge(k := v)) ''httpEndpoints'' = JArray [JString ''http://example.com''] \<and>
     (test_bridge(k := v)) ''mqttEndpoint'' = JString ''mqtt://example.com'' \<and>
     (test_bridge(k := v)) ''topics'' = JArray [JString ''topic'']"
  "k \<notin> set integerConfigFields \<Longrightarrow>
     list_all (\<lambda>field. isValidNumber ((test_bridge(k := v)) field)) integerConfigFields"
  by (auto simp add: test_bridge_def integerConfigFields_def isValidNumber_def)

lemma test_bridge_accepted:
  assumes "k \<notin> {''httpEndpoints'', ''mqttEndpoint'', ''topics''}"
    and "list_all (\<lambda>field. isValidNumber ((test_bridge(k := v)) field)) integerConfigFields"
  shows "\<exists>b. validate_bridge test_parseURL (test_bridge(k := v)) = Inr b \<and>
     b ''backoffMultiplier'' =
       js_or ((test_bridge(k := v)) ''backoffMultiplier'') DEFAULT_BACKOFF_MULTIPLIER"
proof -
  note l = test_bridge_lookup(1) [OF assms(1), of v]
  have "isValidArrayOfURLs test_parseURL ((test_bridge(k := v)) ''httpEndpoints'')
        [''http:'', ''https:'']"
    "isValidArrayOfURLs test_parseURL (JArray [(test_bridge(k := v)) ''mqttEndpoint''])
        [''mqtt:'', ''mqtts:'', ''ws:'', ''wss:'']"
    "isValidArrayOfStrings ((test_bridge(k := v)) ''topics'')"
    unfolding l [THEN conjunct1] l [THEN conjunct2, THEN conjunct1]
      l [THEN conjunct2, THEN conjunct2]
    by (simp_all add: isValidArrayOfURLs_def isValidArrayOfStrings_def test_parseURL_def)
  from validate_bridge_accepts [OF assms(2) this] show ?thesis by blast
qed

text \<open>
  C6 on the code. The test bridge with \<^verbatim>\<open>backoffMultiplier = -1\<close> (the property that the
  defaults and \<^verbatim>\<open>bridge.js\<close> read) passes the validation and keeps the value \<open>-1\<close>: the
  list of validated fields spells the name \<^verbatim>\<open>backOffMultiplier\<close>. With that spelling a
  value is checked (\<open>-1\<close> is rejected) but never used: \<^verbatim>\<open>backOffMultiplier = 3\<close> leaves the
  effective multiplier at the default 2.
\<close>

theorem backoffMultiplier_escapes_validation:
  "(\<exists>b. validate_bridge test_parseURL (test_bridge(''backoffMultiplier'' := JNumber (- 1))) = Inr b \<and>
        b ''backoffMultiplier'' = JNumber (- 1)) \<and>
   (\<exists>msg. validate_bridge test_parseURL (test_bridge(''backOffMultiplier'' := JNumber (- 1))) =
        Inl (Error msg)) \<and>
   (\<exists>b. validate_bridge test_parseURL (test_bridge(''backOffMultiplier'' := JNumber 3)) = Inr b \<and>
        b ''backoffMultiplier'' = JNumber 2)"
proof (intro conjI)
  have "''backoffMultiplier'' \<notin> set integerConfigFields"
    by (simp add: integerConfigFields_def)
  then have "list_all (\<lambda>field. isValidNumber
      ((test_bridge(''backoffMultiplier'' := JNumber (- 1))) field)) integerConfigFields"
    by (rule test_bridge_lookup(2))
  then have "\<exists>b. validate_bridge test_parseURL (test_bridge(''backoffMultiplier'' := JNumber (- 1))) =
      Inr b \<and> b ''backoffMultiplier'' =
       js_or ((test_bridge(''backoffMultiplier'' := JNumber (- 1))) ''backoffMultiplier'')
         DEFAULT_BACKOFF_MULTIPLIER"
    by (intro test_bridge_accepted) simp_all
  then show "\<exists>b. validate_bridge test_parseURL (test_bridge(''backoffMultiplier'' := JNumber (- 1))) =
      Inr b \<and> b ''backoffMultiplier'' = JNumber (- 1)"
    by (simp add: js_or_def)
next
  have "''backOffMultiplier'' \<in> set integerConfigFields"
    by (simp add: integerConfigFields_def)
  moreover have "\<not> isValidNumber
      ((test_bridge(''backOffMultiplier'' := JNumber (- 1))) ''backOffMultiplier'')"
    by (simp add: isValidNumber_def)
  ultimately show "\<exists>msg. validate_bridge test_parseURL
      (test_bridge(''backOffMultiplier'' := JNumber (- 1))) = Inl (Error msg)"
    by (rule validate_bridge_rejects)
next
  have "list_all (\<lambda>field. isValidNumber
      ((test_bridge(''backOffMultiplier'' := JNumber 3)) field)) integerConfigFields"
    by (simp add: integerConfigFields_def test_bridge_def isValidNumber_def)
  then have "\<exists>b. validate_bridge test_parseURL (test_bridge(''backOffMultiplier'' := JNumber 3)) =
      Inr b \<and> b ''backoffMultiplier'' =
       js_or ((test_bridge(''backOffMultiplier'' := JNumber 3)) ''backoffMultiplier'')
         DEFAULT_BACKOFF_MULTIPLIER"
    by (intro test_bridge_accepted) simp_all
  then show "\<exists>b. validate_bridge test_parseURL (test_bridge(''backOffMultiplier'' := JNumber 3)) =
      Inr b \<and> b ''backoffMultiplier'' = JNumber 2"
    by (simp add: js_or_def test_bridge_def DEFAULT_BACKOFF_MULTIPLIER_def)
qed

section \<open>The retry sequence in a running bridge\<close>

lemma outage_start_state:
  "run (\<lambda>s. s) test_config outage_start (bridge_init test_config) =
    \<lparr>store =
        [\<lparr>data =
            \<lparr>topic = ''topic1'', message = ''Message Body 1'',
               time = 1592425256831\<rparr>,
            attempts = 3\<rparr>],
        queues =
          [(''http://example.com/1'', \<lparr>running = [], waiting = []\<rparr>),
           (''http://example.com/2'', \<lparr>running = [], waiting = []\<rparr>),
           (''http://example.com/3'', \<lparr>running = [], waiting = []\<rparr>)],
        timers =
          [(1000, ''http://example.com/1'', 0),
           (2000, ''http://example.com/2'', 0),
           (4000, ''http://example.com/3'', 0)],
        posts =
          [\<lparr>url = ''http://example.com/1'',
              body =
                \<lparr>topic = ''topic1'', message = ''Message Body 1'',
                   time = 1592425256831\<rparr>,
              content_type = ''application/json'', post_timeout = 60000,
              post_task = 0\<rparr>,
           \<lparr>url = ''http://example.com/2'',
              body =
                \<lparr>topic = ''topic1'', message = ''Message Body 1'',
                   time = 1592425256831\<rparr>,
              content_type = ''application/json'', post_timeout = 60000,
              post_task = 0\<rparr>,
           \<lparr>url = ''http://example.com/3'',
              body =
                \<lparr>topic = ''topic1'', message = ''Message Body 1'',
                   time = 1592425256831\<rparr>,
              content_type = ''application/json'', post_timeout = 60000,
              post_task = 0\<rparr>],
        messagesCount = 1,
        logs =
          [Debug_Bridging ''topic1'' ''http://example.com/1'',
           Debug_Bridging ''topic1'' ''http://example.com/2'',
           Debug_Bridging ''topic1'' ''http://example.com/3'',
           Warn_Failed ''topic1'' ''http://example.com/1'',
           Debug_Requeuing 1000 ''topic1'' ''http://example.com/1'',
           Warn_Failed ''topic1'' ''http://example.com/2'',
           Debug_Requeuing 2000 ''topic1'' ''http://example.com/2'',
           Warn_Failed ''topic1'' ''http://example.com/3'',
           Debug_Requeuing 4000 ''topic1'' ''http://example.com/3'']\<rparr>"
  by (simp add: outage_start_def eval_defs)

lemma outage_retries_state:
  "run (\<lambda>s. s) test_config outage_retries
    (\<lparr>store =
        [\<lparr>data =
            \<lparr>topic = ''topic1'', message = ''Message Body 1'',
               time = 1592425256831\<rparr>,
            attempts = 3\<rparr>],
        queues =
          [(''http://example.com/1'', \<lparr>running = [], waiting = []\<rparr>),
           (''http://example.com/2'', \<lparr>running = [], waiting = []\<rparr>),
           (''http://example.com/3'', \<lparr>running = [], waiting = []\<rparr>)],
        timers =
          [(1000, ''http://example.com/1'', 0),
           (2000, ''http://example.com/2'', 0),
           (4000, ''http://example.com/3'', 0)],
        posts =
          [\<lparr>url = ''http://example.com/1'',
              body =
                \<lparr>topic = ''topic1'', message = ''Message Body 1'',
                   time = 1592425256831\<rparr>,
              content_type = ''application/json'', post_timeout = 60000,
              post_task = 0\<rparr>,
           \<lparr>url = ''http://example.com/2'',
              body =
                \<lparr>topic = ''topic1'', message = ''Message Body 1'',
                   time = 1592425256831\<rparr>,
              content_type = ''application/json'', post_timeout = 60000,
              post_task = 0\<rparr>,
           \<lparr>url = ''http://example.com/3'',
              body =
                \<lparr>topic = ''topic1'', message = ''Message Body 1'',
                   time = 1592425256831\<rparr>,
              content_type = ''application/json'', post_timeout = 60000,
              post_task = 0\<rparr>],
        messagesCount = 1,
        logs =
          [Debug_Bridging ''topic1'' ''http://example.com/1'',
           Debug_Bridging ''topic1'' ''http://example.com/2'',
           Debug_Bridging ''topic1'' ''http://example.com/3'',
           Warn_Failed ''topic1'' ''http://example.com/1'',
           Debug_Requeuing 1000 ''topic1'' ''http://example.com/1'',
           Warn_Failed ''topic1'' ''http://example.com/2'',
           Debug_Requeuing 2000 ''topic1'' ''http://example.com/2'',
           Warn_Failed ''topic1'' ''http://example.com/3'',
           Debug_Requeuing 4000 ''topic1'' ''http://example.com/3'']\<rparr>) =
    \<lparr>store =
        [\<lparr>data =
            \<lparr>topic = ''topic1'', message = ''Message Body 1'',
               time = 1592425256831\<rparr>,
            attempts = 4\<rparr>],
        queues =
          [(''http://example.com/1'', \<lparr>running = [], waiting = []\<rparr>),
           (''http://example.com/2'', \<lparr>running = [], waiting = []\<rparr>),
           (''http://example.com/3'', \<lparr>running = [], waiting = []\<rparr>)],
        timers = [(8000, ''http://example.com/1'', 0)],
        posts =
          [\<lparr>url = ''http://example.com/1'',
              body =
                \<lparr>topic = ''topic1'', message = ''Message Body 1'',
                   time = 1592425256831\<rparr>,
              content_type = ''application/json'', post_timeout = 60000,
              post_task = 0\<rparr>,
           \<lparr>url = ''http://example.com/2'',
              body =
                \<lparr>topic = ''topic1'', message = ''Message Body 1'',
                   time = 1592425256831\<rparr>,
              content_type = ''application/json'', post_timeout = 60000,
              post_task = 0\<rparr>,
           \<lparr>url = ''http://example.com/3'',
              body =
                \<lparr>topic = ''topic1'', message = ''Message Body 1'',
                   time = 1592425256831\<rparr>,
              content_type = ''application/json'', post_timeout = 60000,
              post_task = 0\<rparr>,
           \<lparr>url = ''http://example.com/1'',
              body =
                \<lparr>topic = ''topic1'', message = ''Message Body 1'',
                   time = 1592425256831\<rparr>,
              content_type = ''application/json'', post_timeout = 60000,
              post_task = 0\<rparr>,
           \<lparr>url = ''http://example.com/2'',
              body =
                \<lparr>topic = ''topic1'', message = ''Message Body 1'',
                   time = 1592425256831\<rparr>,
              content_type = ''application/json'', post_timeout = 60000,
              post_task = 0\<rparr>,
           \<lparr>url = ''http://example.com/3'',
              body =
                \<lparr>topic = ''topic1'', message = ''Message Body 1'',
                   time = 1592425256831\<rparr>,
              content_type = ''application/json'', post_timeout = 60000,
              post_task = 0\<rparr>],
        messagesCount = 1,
        logs =
          [Debug_Bridging ''topic1'' ''http://example.com/1'',
           Debug_Bridging ''topic1'' ''http://example.com/2'',
           Debug_Bridging ''topic1'' ''http://example.com/3'',
           Warn_Failed ''topic1'' ''http://example.com/1'',
           Debug_Requeuing 1000 ''topic1'' ''http://example.com/1'',
           Warn_Failed ''topic1'' ''http://example.com/2'',
           Debug_Requeuing 2000 ''topic1'' ''http://example.com/2'',
           Warn_Failed ''topic1'' ''http://example.com/3'',
           Debug_Requeuing 4000 ''topic1'' ''http://example.com/3'',
           Debug_Bridging ''topic1'' ''http://example.com/1'',
           Warn_Failed ''topic1'' ''http://example.com/1'',
           Debug_Requeuing 8000 ''topic1'' ''http://example.com/1'',
           Debug_Bridging ''topic1'' ''http://example.com/2'',
           Warn_Failed ''topic1'' ''http://example.com/2'',
           Error_MaxAttempts 5 ''topic1'' ''http://example.com/2'',
           Debug_Bridging ''topic1'' ''http://example.com/3'',
           Warn_Failed ''topic1'' ''http://example.com/3'',
           Error_MaxAttempts 5 ''topic1'' ''http://example.com/3'']\<rparr>"
  by (simp add: outage_retries_def eval_defs)

text \<open>
  C3 on the code. The test bridge (multiplier 2, \<^verbatim>\<open>maxAttempts\<close> 5, three endpoints) with
  every request failing: the first requeue of the task of the second endpoint is
  scheduled after 2000 ms and that of the third after 4000 ms, not after 1000 ms, since
  the three tasks are one object with one counter. When the retries fail, the first
  endpoint is requeued once more (after 8000 ms) and the tasks of the second and third
  endpoints are abandoned after a single requeue each, not after \<^verbatim>\<open>maxAttempts - 1 = 4\<close>.
\<close>

theorem retry_sequence_in_outage:
  "(let st1 = run (\<lambda>s. s) test_config outage_start (bridge_init test_config);
        st2 = run (\<lambda>s. s) test_config outage_retries st1
    in timers st1 =
         [(1000, ''http://example.com/1'', 0), (2000, ''http://example.com/2'', 0),
          (4000, ''http://example.com/3'', 0)] \<and>
       attempts (store st1 ! 0) = 3 \<and>
       timers st2 = [(8000, ''http://example.com/1'', 0)] \<and>
       attempts (store st2 ! 0) = 4 \<and>
       filter requeue_log (logs st2) =
         [Debug_Requeuing 1000 ''topic1'' ''http://example.com/1'',
          Debug_Requeuing 2000 ''topic1'' ''http://example.com/2'',
          Debug_Requeuing 4000 ''topic1'' ''http://example.com/3'',
          Debug_Requeuing 8000 ''topic1'' ''http://example.com/1'',
          Error_MaxAttempts 5 ''topic1'' ''http://example.com/2'',
          Error_MaxAttempts 5 ''topic1'' ''http://example.com/3''])"
  unfolding Let_def outage_start_state outage_retries_state
  by simp

section \<open>The retry timer and the bound\<close>

lemma before_timer_timers:
  "timers (run (\<lambda>s. s) small_config (butlast overflow_events) (bridge_init small_config)) =
     [(1000, ''http://example.com/1'', 0)]"
  by (simp add: overflow_events_def eval_defs)

text \<open>
  C1 on the code. One endpoint, one worker, \<^verbatim>\<open>maxQueueLength\<close> 1: the queue holds one
  waiting message, is full, and a retry timer is pending. When the timer fires, the
  callback pushes the retried message without looking at the length: the queue then
  reports two waiting messages against a maximum of one, and nothing was dropped.
\<close>

theorem retry_push_exceeds_maxQueueLength:
  "(let st = run (\<lambda>s. s) small_config (butlast overflow_events) (bridge_init small_config);
        st' = run (\<lambda>s. s) small_config overflow_events (bridge_init small_config)
    in maxQueueLength small_config = 1 \<and>
       getQueueLength st = [(''http://example.com/1'', 1)] \<and>
       timers st = [(1000, ''http://example.com/1'', 0)] \<and>
       last overflow_events = TimerFired 0 \<and>
       getQueueLength st' = [(''http://example.com/1'', 2)] \<and>
       \<not> queues_bounded small_config st')"
  unfolding Let_def queues_bounded_def getQueueLength_def overflow_queues before_timer_queues
    before_timer_timers
  by (simp add: small_config_def overflow_events_def)

end
